theory Spec2Isabelle
  imports Complex_Main "HOL-Library.Word"
begin

section \<open>Chroma-key settings (interfaces/chroma-key-settings.interface.ts)\<close>

text \<open>
  \<^verbatim>\<open>ChromaKeySettings\<close> has a hex colour and two numbers. The numbers are only ever
  copied and compared with \<^verbatim>\<open>undefined\<close>, never computed with, so they are modelled
  as reals. \<^verbatim>\<open>Partial<ChromaKeySettings>\<close> has every field optional: an absent field
  is \<open>None\<close>. The presets are those of the interface file that also exports
  \<^verbatim>\<open>rgbToHex\<close>, the one the detecting service imports; an older copy of the file has
  similarity 0.25 and blend 0.1 for green.
\<close>

record ChromaKeySettings =
  color :: string
  similarity :: real
  blend :: real

record PartialSettings =
  p_color :: "string option"
  p_similarity :: "real option"
  p_blend :: "real option"

datatype ColorType = green | blue

definition GREEN_SCREEN_SETTINGS :: ChromaKeySettings where
  "GREEN_SCREEN_SETTINGS = \<lparr>color = ''00FF00'', similarity = 0.01, blend = 0.08\<rparr>"

definition BLUE_SCREEN_SETTINGS :: ChromaKeySettings where
  "BLUE_SCREEN_SETTINGS = \<lparr>color = ''0000FF'', similarity = 0.3, blend = 0.1\<rparr>"

text \<open>The object spread \<^verbatim>\<open>{ ...baseSettings, ...overrides }\<close>, field by field.\<close>

definition spread :: "ChromaKeySettings \<Rightarrow> PartialSettings \<Rightarrow> ChromaKeySettings" where
  "spread base ov =
     \<lparr>color = (case p_color ov of None \<Rightarrow> color base | Some c \<Rightarrow> c),
      similarity = (case p_similarity ov of None \<Rightarrow> similarity base | Some s \<Rightarrow> s),
      blend = (case p_blend ov of None \<Rightarrow> blend base | Some b \<Rightarrow> b)\<rparr>"

text \<open>The parameter \<^verbatim>\<open>overrides?\<close> may be missing; spreading \<^verbatim>\<open>undefined\<close> adds nothing.\<close>

definition getSettings :: "ColorType \<Rightarrow> PartialSettings option \<Rightarrow> ChromaKeySettings" where
  "getSettings colorType overrides =
     (let baseSettings =
        (if colorType = green then GREEN_SCREEN_SETTINGS else BLUE_SCREEN_SETTINGS)
      in case overrides of None \<Rightarrow> baseSettings | Some ov \<Rightarrow> spread baseSettings ov)"

text \<open>The preset of a colour type, as the specification names it.\<close>

definition preset :: "ColorType \<Rightarrow> ChromaKeySettings" where
  "preset t = (case t of green \<Rightarrow> GREEN_SCREEN_SETTINGS | blue \<Rightarrow> BLUE_SCREEN_SETTINGS)"

section \<open>Colour conversion\<close>

text \<open>
  A channel of an \<^verbatim>\<open>RGB\<close> object is a JavaScript number. The values that reach
  \<^verbatim>\<open>rgbToHex\<close> are integers, or \<^verbatim>\<open>NaN\<close> when \<^verbatim>\<open>analyzeFrameColors\<close>
  quantized a read beyond the end of the pixel buffer.
\<close>

datatype chan = Num int | NaN

record RGB =
  rgb_r :: chan
  rgb_g :: chan
  rgb_b :: chan

definition hexDigit :: "nat \<Rightarrow> char" where
  "hexDigit d = ''0123456789abcdef'' ! d"

text \<open>\<^verbatim>\<open>Number.prototype.toString(16)\<close> on an integer.\<close>

fun natToString16 :: "nat \<Rightarrow> string" where
  "natToString16 n =
     (if n < 16 then [hexDigit n] else natToString16 (n div 16) @ [hexDigit (n mod 16)])"

declare natToString16.simps [simp del]

definition toString16 :: "chan \<Rightarrow> string" where
  "toString16 v =
     (case v of
        NaN \<Rightarrow> ''NaN''
      | Num n \<Rightarrow> (if n < 0 then CHR ''-'' # natToString16 (nat (- n)) else natToString16 (nat n)))"

text \<open>\<^verbatim>\<open>Math.max(0, n)\<close> and \<^verbatim>\<open>Math.min(255, n)\<close>: \<^verbatim>\<open>NaN\<close> is contagious.\<close>

definition math_max :: "int \<Rightarrow> chan \<Rightarrow> chan" where
  "math_max k v = (case v of NaN \<Rightarrow> NaN | Num n \<Rightarrow> Num (max k n))"

definition math_min :: "int \<Rightarrow> chan \<Rightarrow> chan" where
  "math_min k v = (case v of NaN \<Rightarrow> NaN | Num n \<Rightarrow> Num (min k n))"

definition padStart :: "nat \<Rightarrow> char \<Rightarrow> string \<Rightarrow> string" where
  "padStart n c s = replicate (n - length s) c @ s"

text \<open>\<^verbatim>\<open>String.prototype.toUpperCase\<close> on the ASCII letters.\<close>

definition toUpperChar :: "char \<Rightarrow> char" where
  "toUpperChar c =
     (let n = (of_char c :: nat) in if 97 \<le> n \<and> n \<le> 122 then char_of (n - 32) else c)"

definition toUpperCase :: "string \<Rightarrow> string" where
  "toUpperCase s = map toUpperChar s"

definition toHex :: "chan \<Rightarrow> string" where
  "toHex n = padStart 2 (CHR ''0'') (toString16 (math_min 255 (math_max 0 n)))"

definition rgbToHex :: "RGB \<Rightarrow> string" where
  "rgbToHex rgb = toUpperCase (toHex (rgb_r rgb) @ toHex (rgb_g rgb) @ toHex (rgb_b rgb))"

text \<open>
  The reading of the specification: a channel clamped to \<open>[0,255]\<close> and written as two
  upper-case hexadecimal digits.
\<close>

definition clamp255 :: "int \<Rightarrow> nat" where
  "clamp255 n = (if n < 0 then 0 else if 255 < n then 255 else nat n)"

definition upperHexDigit :: "nat \<Rightarrow> char" where
  "upperHexDigit d = ''0123456789ABCDEF'' ! d"

definition hex2 :: "nat \<Rightarrow> string" where
  "hex2 n = [upperHexDigit (n div 16), upperHexDigit (n mod 16)]"

section \<open>Request settings (video.service.ts, processVideo)\<close>

text \<open>
  The request body. Optional fields are \<open>None\<close> when absent. The fields \<^verbatim>\<open>color\<close>,
  \<^verbatim>\<open>similarity\<close> and \<^verbatim>\<open>blend\<close> carry the prefix \<open>dto_\<close> here, since the settings
  record has fields of the same names.
\<close>

record ProcessVideoDto =
  videoUrl :: "string option"
  colorType :: ColorType
  autoDetectColor :: "bool option"
  dto_color :: "string option"
  dto_similarity :: "real option"
  dto_blend :: "real option"
  mask_similarity :: "real option"
  mask_blend :: "real option"

text \<open>JavaScript truthiness of \<^verbatim>\<open>string | undefined\<close>: the empty string is falsy.\<close>

definition truthy :: "string option \<Rightarrow> bool" where
  "truthy v = (case v of None \<Rightarrow> False | Some s \<Rightarrow> s \<noteq> [])"

text \<open>
  Lines 87 to 101: the overrides of the result pass. \<open>detectedColor\<close> is the local
  variable of that name: the detected colour, or \<open>None\<close> when detection was not
  requested or found nothing.
\<close>

definition build_resultSettings :: "ProcessVideoDto \<Rightarrow> string option \<Rightarrow> PartialSettings" where
  "build_resultSettings dto detectedColor =
     (let rs0 = \<lparr>p_color = None, p_similarity = None, p_blend = None\<rparr>;
          rs1 = (if truthy detectedColor then rs0\<lparr>p_color := detectedColor\<rparr>
                 else if truthy (dto_color dto)
                 then rs0\<lparr>p_color := map_option toUpperCase (dto_color dto)\<rparr>
                 else rs0);
          rs2 = (if dto_similarity dto \<noteq> None then rs1\<lparr>p_similarity := dto_similarity dto\<rparr>
                 else rs1);
          rs3 = (if dto_blend dto \<noteq> None then rs2\<lparr>p_blend := dto_blend dto\<rparr> else rs2)
      in rs3)"

text \<open>Lines 105 to 121: the overrides of the mask pass, built on their own.\<close>

definition build_maskSettings :: "ProcessVideoDto \<Rightarrow> string option \<Rightarrow> PartialSettings" where
  "build_maskSettings dto detectedColor =
     (let ms0 = \<lparr>p_color = None, p_similarity = None, p_blend = None\<rparr>;
          ms1 = (if truthy detectedColor then ms0\<lparr>p_color := detectedColor\<rparr>
                 else if truthy (dto_color dto)
                 then ms0\<lparr>p_color := map_option toUpperCase (dto_color dto)\<rparr>
                 else ms0);
          ms2 = (if mask_similarity dto \<noteq> None then ms1\<lparr>p_similarity := mask_similarity dto\<rparr>
                 else ms1);
          ms3 = (if mask_blend dto \<noteq> None then ms2\<lparr>p_blend := mask_blend dto\<rparr> else ms2)
      in ms3)"

text \<open>
  Lines 74 to 84: \<open>found\<close> is what \<^verbatim>\<open>findDominantChromaColor\<close> returned; it is
  looked at only when the request asks for detection.
\<close>

definition detectedColor_of :: "ProcessVideoDto \<Rightarrow> string option \<Rightarrow> string option" where
  "detectedColor_of dto found =
     (if autoDetectColor dto = Some True then (if truthy found then found else None) else None)"

text \<open>
  The two settings objects that \<^verbatim>\<open>processChromaKey\<close> resolves (its lines 265 and 269)
  from the options \<^verbatim>\<open>processVideo\<close> passes.
\<close>

definition resultChromaSettings :: "ProcessVideoDto \<Rightarrow> string option \<Rightarrow> ChromaKeySettings" where
  "resultChromaSettings dto detectedColor =
     getSettings (colorType dto) (Some (build_resultSettings dto detectedColor))"

definition maskChromaSettings :: "ProcessVideoDto \<Rightarrow> string option \<Rightarrow> ChromaKeySettings" where
  "maskChromaSettings dto detectedColor =
     getSettings (colorType dto) (Some (build_maskSettings dto detectedColor))"

text \<open>The validation of \<^verbatim>\<open>color\<close> in the DTO: \<^verbatim>\<open>/^[0-9A-Fa-f]{6}$/\<close>.\<close>

definition isHexChar :: "char \<Rightarrow> bool" where
  "isHexChar c = (c \<in> set ''0123456789ABCDEFabcdef'')"

definition matchesHex6 :: "string \<Rightarrow> bool" where
  "matchesHex6 s = (length s = 6 \<and> list_all isHexChar s)"

section \<open>Dominant colour of a frame (ffmpeg.service.ts, analyzeFrameColors)\<close>

text \<open>
  \<^verbatim>\<open>sharp(framePath).raw().toBuffer({ resolveWithObject: true })\<close> yields a byte buffer
  and \<^verbatim>\<open>info.channels\<close>, which sharp types as \<^verbatim>\<open>1 | 2 | 3 | 4\<close>.
\<close>

type_synonym byte = "8 word"

datatype Channels = Ch1 | Ch2 | Ch3 | Ch4

fun channels_nat :: "Channels \<Rightarrow> nat" where
  "channels_nat Ch1 = 1"
| "channels_nat Ch2 = 2"
| "channels_nat Ch3 = 3"
| "channels_nat Ch4 = 4"

record RawFrame =
  data :: "byte list"
  channels :: Channels

text \<open>
  \<^verbatim>\<open>data[i]\<close>: a read beyond the buffer gives \<^verbatim>\<open>undefined\<close>, which compares false
  with every number and turns into \<^verbatim>\<open>NaN\<close> under arithmetic; it is \<open>NaN\<close> here from
  the start.
\<close>

definition byteAt :: "byte list \<Rightarrow> nat \<Rightarrow> chan" where
  "byteAt d i = (if i < length d then Num (uint (d ! i)) else NaN)"

definition js_lt :: "chan \<Rightarrow> int \<Rightarrow> bool" where
  "js_lt v k = (case v of Num n \<Rightarrow> n < k | NaN \<Rightarrow> False)"

definition js_gt :: "chan \<Rightarrow> int \<Rightarrow> bool" where
  "js_gt v k = (case v of Num n \<Rightarrow> n > k | NaN \<Rightarrow> False)"

text \<open>\<^verbatim>\<open>Math.floor(v / quantizeFactor) * quantizeFactor\<close> with \<^verbatim>\<open>quantizeFactor = 8\<close>.\<close>

definition quantize :: "chan \<Rightarrow> chan" where
  "quantize v = (case v of Num n \<Rightarrow> Num ((n div 8) * 8) | NaN \<Rightarrow> NaN)"

text \<open>
  A JavaScript \<^verbatim>\<open>Map\<close> keeps its keys in insertion order: an association list with
  distinct keys. \<^verbatim>\<open>set\<close> on a key that is present keeps the key's position.
\<close>

type_synonym ('k, 'v) jsmap = "('k \<times> 'v) list"

fun jsmap_set :: "'k \<Rightarrow> 'v \<Rightarrow> ('k, 'v) jsmap \<Rightarrow> ('k, 'v) jsmap" where
  "jsmap_set k v [] = [(k, v)]"
| "jsmap_set k v ((k', v') # m) =
     (if k' = k then (k, v) # m else (k', v') # jsmap_set k v m)"

definition jsmap_get :: "('k, 'v) jsmap \<Rightarrow> 'k \<Rightarrow> 'v option" where
  "jsmap_get m k = map_of m k"

definition jsmap_values :: "('k, 'v) jsmap \<Rightarrow> 'v list" where
  "jsmap_values m = map snd m"

record entry =
  rgb :: RGB
  count :: nat

text \<open>
  The key is the string \<^verbatim>\<open>`${qR},${qG},${qB}`\<close>. Two triples give the same string
  exactly when they are equal, so the triple itself is the key.
\<close>

type_synonym colorKey = "chan \<times> chan \<times> chan"

text \<open>Lines 168 to 172: one vote for a quantized colour.\<close>

definition vote :: "chan \<Rightarrow> chan \<Rightarrow> chan \<Rightarrow> (colorKey, entry) jsmap \<Rightarrow> (colorKey, entry) jsmap" where
  "vote qR qG qB colorMap =
     (let key = (qR, qG, qB)
      in case jsmap_get colorMap key of
           Some e \<Rightarrow> jsmap_set key (e\<lparr>count := count e + 1\<rparr>) colorMap
         | None \<Rightarrow>
             jsmap_set key \<lparr>rgb = \<lparr>rgb_r = qR, rgb_g = qG, rgb_b = qB\<rparr>, count = 1\<rparr> colorMap)"

text \<open>The loop of lines 151 to 173, from index \<open>i\<close> on.\<close>

function scanPixels :: "RawFrame \<Rightarrow> nat \<Rightarrow> (colorKey, entry) jsmap \<Rightarrow> (colorKey, entry) jsmap" where
  "scanPixels f i colorMap =
     (if i < length (data f) then
        (let r = byteAt (data f) i;
             g = byteAt (data f) (i + 1);
             b = byteAt (data f) (i + 2)
         in if js_lt r 30 \<and> js_lt g 30 \<and> js_lt b 30
            then scanPixels f (i + channels_nat (channels f)) colorMap
            else if js_gt r 240 \<and> js_gt g 240 \<and> js_gt b 240
            then scanPixels f (i + channels_nat (channels f)) colorMap
            else scanPixels f (i + channels_nat (channels f))
                   (vote (quantize r) (quantize g) (quantize b) colorMap))
      else colorMap)"
  by pat_completeness auto
termination
proof (relation "measure (\<lambda>(f, i, m). length (data f) - i)")
  show "wf (measure (\<lambda>(f, i, m). length (data f) - i))" by simp
next
  fix f :: RawFrame and i :: nat and colorMap :: "(colorKey, entry) jsmap" and x xa xb
  assume "i < length (data f)"
  moreover have "0 < channels_nat (channels f)" by (cases "channels f") simp_all
  ultimately show "((f, i + channels_nat (channels f), colorMap), (f, i, colorMap))
      \<in> measure (\<lambda>(f, i, m). length (data f) - i)"
    by simp
next
  fix f :: RawFrame and i :: nat and colorMap :: "(colorKey, entry) jsmap" and x xa xb
  assume "i < length (data f)"
  moreover have "0 < channels_nat (channels f)" by (cases "channels f") simp_all
  ultimately show "((f, i + channels_nat (channels f), colorMap), (f, i, colorMap))
      \<in> measure (\<lambda>(f, i, m). length (data f) - i)"
    by simp
next
  fix f :: RawFrame and i :: nat and colorMap :: "(colorKey, entry) jsmap" and x xa xb
  assume "i < length (data f)"
  moreover have "0 < channels_nat (channels f)" by (cases "channels f") simp_all
  ultimately show "((f, i + channels_nat (channels f),
        vote (quantize x) (quantize xa) (quantize xb) colorMap), (f, i, colorMap))
      \<in> measure (\<lambda>(f, i, m). length (data f) - i)"
    by simp
qed

declare scanPixels.simps [simp del]

text \<open>
  Lines 176 and 177. \<^verbatim>\<open>Array.prototype.sort\<close> is stable; with the comparator
  \<^verbatim>\<open>b.count - a.count\<close> it orders by descending count, which is the stable sort
  \<open>sort_key\<close> on the negated count.
\<close>

definition mostFrequent :: "(colorKey, entry) jsmap \<Rightarrow> RGB option" where
  "mostFrequent colorMap =
     (let sorted = sort_key (\<lambda>e. - int (count e)) (jsmap_values colorMap)
      in case sorted of [] \<Rightarrow> None | e # _ \<Rightarrow> Some (rgb e))"

definition analyzePixels :: "RawFrame \<Rightarrow> RGB option" where
  "analyzePixels f = mostFrequent (scanPixels f 0 [])"

text \<open>
  The reading of the specification. A frame of whole RGB or RGBA pixels; its pixels; the
  pixels left out of the vote; the bucket of a channel; the votes cast, in pixel order.
\<close>

definition rgbFrame :: "RawFrame \<Rightarrow> bool" where
  "rgbFrame f =
     (3 \<le> channels_nat (channels f) \<and> length (data f) mod channels_nat (channels f) = 0)"

definition pixelAt :: "RawFrame \<Rightarrow> nat \<Rightarrow> int \<times> int \<times> int" where
  "pixelAt f k =
     (let c = channels_nat (channels f)
      in (uint (data f ! (k * c)), uint (data f ! (k * c + 1)), uint (data f ! (k * c + 2))))"

definition pixels :: "RawFrame \<Rightarrow> (int \<times> int \<times> int) list" where
  "pixels f = map (pixelAt f) [0..<length (data f) div channels_nat (channels f)]"

definition excluded :: "int \<times> int \<times> int \<Rightarrow> bool" where
  "excluded p =
     (case p of (r, g, b) \<Rightarrow> (r < 30 \<and> g < 30 \<and> b < 30) \<or> (r > 240 \<and> g > 240 \<and> b > 240))"

definition bucket :: "int \<Rightarrow> int" where
  "bucket v = (v div 8) * 8"

definition bucketOf :: "int \<times> int \<times> int \<Rightarrow> int \<times> int \<times> int" where
  "bucketOf p = (case p of (r, g, b) \<Rightarrow> (bucket r, bucket g, bucket b))"

definition votes :: "RawFrame \<Rightarrow> (int \<times> int \<times> int) list" where
  "votes f = map bucketOf (filter (\<lambda>p. \<not> excluded p) (pixels f))"

definition rgbOf :: "int \<times> int \<times> int \<Rightarrow> RGB" where
  "rgbOf p = (case p of (r, g, b) \<Rightarrow> \<lparr>rgb_r = Num r, rgb_g = Num g, rgb_b = Num b\<rparr>)"

text \<open>Notions for the proofs: the key of a vote, a vote cast, and the tally of a vote list.\<close>

definition keyOf :: "int \<times> int \<times> int \<Rightarrow> colorKey" where
  "keyOf p = (case p of (x, y, z) \<Rightarrow> (Num x, Num y, Num z))"

definition voteP :: "int \<times> int \<times> int \<Rightarrow> (colorKey, entry) jsmap \<Rightarrow> (colorKey, entry) jsmap" where
  "voteP p m = (case p of (x, y, z) \<Rightarrow> vote (Num x) (Num y) (Num z) m)"

definition castVote :: "(colorKey, entry) jsmap \<Rightarrow> int \<times> int \<times> int \<Rightarrow> (colorKey, entry) jsmap" where
  "castVote m p = (if excluded p then m else voteP (bucketOf p) m)"

definition tallied :: "(int \<times> int \<times> int) list \<Rightarrow> (colorKey, entry) jsmap \<Rightarrow> bool" where
  "tallied vs m =
     (distinct (map fst m)
      \<and> (\<forall>v. map_of m (keyOf v) =
            (if v \<in> set vs then Some \<lparr>rgb = rgbOf v, count = count_list vs v\<rparr> else None))
      \<and> (\<forall>k \<in> fst ` set m. \<exists>v \<in> set vs. k = keyOf v))"

section \<open>The world outside: processes, files and built-ins\<close>

text \<open>
  The services spawn \<^verbatim>\<open>ffmpeg\<close> and \<^verbatim>\<open>ffprobe\<close>, decode frames with sharp, and create
  and delete files. The model threads a \<open>world\<close> (the files that exist, the number of
  identifiers drawn, and a trace of the external calls made) through every function and
  reads the outcome of each external call from an environment \<open>env\<close>, which answers a
  call by its arguments: calls with equal arguments end alike. Logging is left out.
  Built-ins of the language and its libraries that the code only calls (\<^verbatim>\<open>parseFloat\<close>,
  the rounding of doubles, the \<^verbatim>\<open>path\<close> functions, \<^verbatim>\<open>new URL\<close>) are fields of the
  environment too.
\<close>

datatype error = Error string | BadRequestException string

fun message :: "error \<Rightarrow> string" where
  "message (Error m) = m"
| "message (BadRequestException m) = m"

text \<open>
  A JavaScript number where it may be anything: the duration read from \<^verbatim>\<open>ffprobe\<close>.
  A finite double is the rational it denotes (both zeros are \<open>Finite 0\<close>). The rounding
  of an exact result to a double is the environment's \<open>to_double\<close>.
\<close>

datatype jsnumber = NotANumber | Finite rat | PosInfinity | NegInfinity

text \<open>
  The argument vectors handed to \<^verbatim>\<open>ffmpeg\<close>, by the three call sites: the frame
  extraction (the text after \<^verbatim>\<open>-ss\<close>, input, frame file), the mask pass and the result
  pass (input, resolved settings, output file). The fixed flags are the same in every
  call of a site.
\<close>

datatype ffmpeg_args =
    FrameArgs string string string
  | MaskArgs string ChromaKeySettings string
  | ResultArgs string ChromaKeySettings string

fun outputFile :: "ffmpeg_args \<Rightarrow> string" where
  "outputFile (FrameArgs t i out) = out"
| "outputFile (MaskArgs i cs out) = out"
| "outputFile (ResultArgs i cs out) = out"

text \<open>
  How a spawned process ends: the \<^verbatim>\<open>close\<close> event with the exit code (\<^verbatim>\<open>null\<close>, here
  \<open>None\<close>, when a signal killed it), the chunks it wrote to the captured stream, and
  whether its output file is on disk afterwards; or the \<^verbatim>\<open>error\<close> event.
\<close>

datatype proc_outcome = Closed "int option" "string list" bool | SpawnError error

datatype probe_outcome = ProbeClosed "int option" "string list" | ProbeError

datatype event =
    SpawnFfmpeg ffmpeg_args
  | SpawnFfprobe string
  | Unlink string
  | Mkdir string
  | HttpGet string
  | WriteFile string

record world =
  files :: "string set"
  uuids :: nat
  trace :: "event list"

record env =
  ffmpeg_run :: "ffmpeg_args \<Rightarrow> proc_outcome"
  ffprobe_run :: "string \<Rightarrow> probe_outcome"
  parseFloat :: "string \<Rightarrow> jsnumber"
  to_double :: "rat \<Rightarrow> jsnumber"
  number_toString :: "rat \<Rightarrow> string"
  sharp_raw :: "string \<Rightarrow> error + RawFrame"
  unlink_error :: "string \<Rightarrow> error option"
  mkdir_error :: "string \<Rightarrow> error option"
  http_get :: "string \<Rightarrow> error + byte list"
  writeFile_error :: "string \<Rightarrow> (error \<times> bool) option"
  uuid :: "nat \<Rightarrow> string"
  os_tmpdir :: string
  cwd :: string
  config :: "string \<Rightarrow> string option"
  path_join :: "string \<Rightarrow> string \<Rightarrow> string"
  path_basename :: "string \<Rightarrow> string"
  path_extname :: "string \<Rightarrow> string"
  url_pathname :: "string \<Rightarrow> error + string"

definition log_event :: "event \<Rightarrow> world \<Rightarrow> world" where
  "log_event e w = w\<lparr>trace := trace w @ [e]\<rparr>"

definition uuidv4 :: "env \<Rightarrow> world \<Rightarrow> string \<times> world" where
  "uuidv4 env w = (uuid env (uuids w), w\<lparr>uuids := Suc (uuids w)\<rparr>)"

text \<open>
  \<^verbatim>\<open>fs.unlink\<close>: it fails when the file is not there or the environment refuses;
  otherwise the file is gone.
\<close>

definition unlink :: "env \<Rightarrow> string \<Rightarrow> world \<Rightarrow> (error + unit) \<times> world" where
  "unlink env p w =
     (let w1 = log_event (Unlink p) w
      in if p \<notin> files w then (Inl (Error ''ENOENT: no such file or directory''), w1)
         else case unlink_error env p of
                Some e \<Rightarrow> (Inl e, w1)
              | None \<Rightarrow> (Inr (), w1\<lparr>files := files w1 - {p}\<rparr>))"

definition mkdir :: "env \<Rightarrow> string \<Rightarrow> world \<Rightarrow> (error + unit) \<times> world" where
  "mkdir env p w =
     (let w1 = log_event (Mkdir p) w
      in case mkdir_error env p of Some e \<Rightarrow> (Inl e, w1) | None \<Rightarrow> (Inr (), w1))"

text \<open>
  \<^verbatim>\<open>fs.writeFile\<close>: on success the file is there; on failure the environment says
  whether a partial file is left.
\<close>

definition writeFile :: "env \<Rightarrow> string \<Rightarrow> world \<Rightarrow> (error + unit) \<times> world" where
  "writeFile env p w =
     (let w1 = log_event (WriteFile p) w
      in case writeFile_error env p of
           None \<Rightarrow> (Inr (), w1\<lparr>files := insert p (files w1)\<rparr>)
         | Some (e, partial) \<Rightarrow>
             (Inl e, if partial then w1\<lparr>files := insert p (files w1)\<rparr> else w1))"

section \<open>Process runner (ffmpeg.service.ts, runFfmpegCommand)\<close>

definition digit :: "nat \<Rightarrow> char" where
  "digit d = ''0123456789'' ! d"

fun showNat :: "nat \<Rightarrow> string" where
  "showNat n = (if n < 10 then [digit n] else showNat (n div 10) @ [digit (n mod 10)])"

declare showNat.simps [simp del]

text \<open>The exit code in a template string: \<^verbatim>\<open>`${code}`\<close>.\<close>

definition showCode :: "int option \<Rightarrow> string" where
  "showCode code =
     (case code of
        None \<Rightarrow> ''null''
      | Some n \<Rightarrow> (if n < 0 then CHR ''-'' # showNat (nat (- n)) else showNat (nat n)))"

definition runFfmpegCommand :: "env \<Rightarrow> ffmpeg_args \<Rightarrow> world \<Rightarrow> (error + unit) \<times> world" where
  "runFfmpegCommand env args w =
     (let w1 = log_event (SpawnFfmpeg args) w
      in case ffmpeg_run env args of
           SpawnError e \<Rightarrow> (Inl e, w1)
         | Closed code chunks written \<Rightarrow>
             (let stderr = concat chunks;
                  w2 = (if written then w1\<lparr>files := insert (outputFile args) (files w1)\<rparr>
                        else w1)
              in if code = Some 0 then (Inr (), w2)
                 else (Inl (Error (''FFmpeg exited with code '' @ showCode code @ '': '' @ stderr)),
                       w2)))"

section \<open>Duration probe (ffmpeg.service.ts, getVideoDuration)\<close>

definition isSpace :: "char \<Rightarrow> bool" where
  "isSpace c = (of_char c \<in> {9, 10, 11, 12, 13, 32 :: nat})"

text \<open>\<^verbatim>\<open>String.prototype.trim\<close> on ASCII white space.\<close>

definition trim :: "string \<Rightarrow> string" where
  "trim s = rev (dropWhile isSpace (rev (dropWhile isSpace s)))"

text \<open>\<^verbatim>\<open>x || 5\<close> on a number: \<^verbatim>\<open>NaN\<close> and zero are falsy.\<close>

definition or5 :: "jsnumber \<Rightarrow> jsnumber" where
  "or5 x =
     (case x of
        NotANumber \<Rightarrow> Finite 5
      | Finite v \<Rightarrow> (if v = 0 then Finite 5 else Finite v)
      | PosInfinity \<Rightarrow> PosInfinity
      | NegInfinity \<Rightarrow> NegInfinity)"

text \<open>
  The promise of \<^verbatim>\<open>getVideoDuration\<close> could in principle reject; the result type
  keeps that branch, and the body never takes it.
\<close>

definition getVideoDuration :: "env \<Rightarrow> string \<Rightarrow> world \<Rightarrow> (error + jsnumber) \<times> world" where
  "getVideoDuration env inputPath w =
     (let w1 = log_event (SpawnFfprobe inputPath) w
      in case ffprobe_run env inputPath of
           ProbeError \<Rightarrow> (Inr (Finite 5), w1)
         | ProbeClosed code chunks \<Rightarrow>
             (let output = concat chunks
              in if code = Some 0
                 then (let duration = or5 (parseFloat env (trim output)) in (Inr duration, w1))
                 else (Inr (Finite 5), w1)))"

text \<open>A positive number: what the specification asks of the probe's result.\<close>

definition positive :: "jsnumber \<Rightarrow> bool" where
  "positive x = (case x of Finite v \<Rightarrow> 0 < v | PosInfinity \<Rightarrow> True | _ \<Rightarrow> False)"

section \<open>Colour sampler (ffmpeg.service.ts, extractFrame)\<close>

text \<open>
  The product of a number with a finite one and the quotient of a number by 100, in
  double arithmetic: the exact result, rounded.
\<close>

definition js_times :: "env \<Rightarrow> jsnumber \<Rightarrow> rat \<Rightarrow> jsnumber" where
  "js_times env a p =
     (case a of
        NotANumber \<Rightarrow> NotANumber
      | Finite x \<Rightarrow> to_double env (x * p)
      | PosInfinity \<Rightarrow>
          (if 0 < p then PosInfinity else if p < 0 then NegInfinity else NotANumber)
      | NegInfinity \<Rightarrow>
          (if 0 < p then NegInfinity else if p < 0 then PosInfinity else NotANumber))"

definition js_over100 :: "env \<Rightarrow> jsnumber \<Rightarrow> jsnumber" where
  "js_over100 env a =
     (case a of
        NotANumber \<Rightarrow> NotANumber
      | Finite x \<Rightarrow> to_double env (x / 100)
      | PosInfinity \<Rightarrow> PosInfinity
      | NegInfinity \<Rightarrow> NegInfinity)"

text \<open>\<^verbatim>\<open>(duration * percentage) / 100\<close>.\<close>

definition timestampAt :: "env \<Rightarrow> jsnumber \<Rightarrow> rat \<Rightarrow> jsnumber" where
  "timestampAt env duration percentage = js_over100 env (js_times env duration percentage)"

text \<open>
  \<^verbatim>\<open>Number.prototype.toFixed(2)\<close>: the integer \<open>n\<close> of hundredths nearest to the
  number, the larger one of two equally near, written with two decimals; from
  \<open>10\<^sup>2\<^sup>1\<close> on, the number's own text.
\<close>

definition toFixed2 :: "env \<Rightarrow> jsnumber \<Rightarrow> string" where
  "toFixed2 env x =
     (case x of
        NotANumber \<Rightarrow> ''NaN''
      | PosInfinity \<Rightarrow> ''Infinity''
      | NegInfinity \<Rightarrow> ''-Infinity''
      | Finite v \<Rightarrow>
          (if 10 ^ 21 \<le> \<bar>v\<bar> then number_toString env v
           else (let n = nat \<lfloor>\<bar>v\<bar> * 100 + 1 / 2\<rfloor>;
                     digits = showNat (n div 100) @ ''.''
                       @ padStart 2 (CHR ''0'') (showNat (n mod 100))
                 in if v < 0 then CHR ''-'' # digits else digits)))"

definition extractFrame :: "env \<Rightarrow> string \<Rightarrow> rat \<Rightarrow> world \<Rightarrow> (error + string) \<times> world" where
  "extractFrame env inputPath percentage w =
     (let tempDir = os_tmpdir env;
          (u, w1) = uuidv4 env w;
          framePath = path_join env tempDir (''frame_'' @ u @ ''.png'')
      in case getVideoDuration env inputPath w1 of
           (Inl e, w2) \<Rightarrow> (Inl e, w2)
         | (Inr duration, w2) \<Rightarrow>
             (let timestamp = timestampAt env duration percentage
              in case runFfmpegCommand env
                        (FrameArgs (toFixed2 env timestamp) inputPath framePath) w2 of
                   (Inl e, w3) \<Rightarrow> (Inl e, w3)
                 | (Inr _, w3) \<Rightarrow> (Inr framePath, w3)))"

section \<open>Aggregate colour detection (ffmpeg.service.ts, findDominantChromaColor)\<close>

text \<open>
  \<^verbatim>\<open>analyzeFrameColors\<close>: sharp decodes the frame file, or throws (always when the file is
  not there); the pixel loop follows.
\<close>

definition analyzeFrameColors :: "env \<Rightarrow> string \<Rightarrow> ColorType \<Rightarrow> world \<Rightarrow> error + RGB option" where
  "analyzeFrameColors env framePath ctype w =
     (if framePath \<notin> files w then Inl (Error (''Input file is missing: '' @ framePath))
      else case sharp_raw env framePath of
             Inl e \<Rightarrow> Inl e
           | Inr f \<Rightarrow> Inr (analyzePixels f))"

text \<open>Line 202: \<^verbatim>\<open>colorCounts.set(hex, (colorCounts.get(hex) ?? 0) + 1)\<close>.\<close>

definition countHex :: "string \<Rightarrow> (string, nat) jsmap \<Rightarrow> (string, nat) jsmap" where
  "countHex hex colorCounts =
     jsmap_set hex ((case jsmap_get colorCounts hex of None \<Rightarrow> 0 | Some n \<Rightarrow> n) + 1) colorCounts"

text \<open>
  The loop of lines 195 to 205 over the percentages left. It returns the frame paths
  pushed so far also when a step throws, since the \<^verbatim>\<open>finally\<close> block needs them.
\<close>

fun sampleFrames ::
  "env \<Rightarrow> string \<Rightarrow> ColorType \<Rightarrow> rat list \<Rightarrow> string list \<Rightarrow> (string, nat) jsmap \<Rightarrow> world
   \<Rightarrow> (error + (string, nat) jsmap) \<times> string list \<times> world" where
  "sampleFrames env inputPath ctype [] framePaths colorCounts w =
     (Inr colorCounts, framePaths, w)"
| "sampleFrames env inputPath ctype (percentage # rest) framePaths colorCounts w =
     (case extractFrame env inputPath percentage w of
        (Inl e, w1) \<Rightarrow> (Inl e, framePaths, w1)
      | (Inr framePath, w1) \<Rightarrow>
          (let framePaths1 = framePaths @ [framePath]
           in case analyzeFrameColors env framePath ctype w1 of
                Inl e \<Rightarrow> (Inl e, framePaths1, w1)
              | Inr col \<Rightarrow>
                  (let colorCounts1 =
                     (case col of
                        None \<Rightarrow> colorCounts
                      | Some c \<Rightarrow> countHex (rgbToHex c) colorCounts)
                   in sampleFrames env inputPath ctype rest framePaths1 colorCounts1 w1)))"

text \<open>The loop of lines 208 to 215.\<close>

fun pickBest :: "(string \<times> nat) list \<Rightarrow> string option \<Rightarrow> nat \<Rightarrow> string option" where
  "pickBest [] bestColor bestCount = bestColor"
| "pickBest ((hex, cnt) # rest) bestColor bestCount =
     (if cnt > bestCount then pickBest rest (Some hex) cnt
      else pickBest rest bestColor bestCount)"

text \<open>The \<^verbatim>\<open>finally\<close> block of lines 224 to 233: every unlink error is dropped.\<close>

fun cleanupFrames :: "env \<Rightarrow> string list \<Rightarrow> world \<Rightarrow> world" where
  "cleanupFrames env [] w = w"
| "cleanupFrames env (framePath # rest) w =
     (case unlink env framePath w of (_, w1) \<Rightarrow> cleanupFrames env rest w1)"

definition findDominantChromaColor ::
  "env \<Rightarrow> string \<Rightarrow> ColorType \<Rightarrow> world \<Rightarrow> (error + string option) \<times> world" where
  "findDominantChromaColor env inputPath ctype w =
     (case sampleFrames env inputPath ctype [5, 25, 50] [] [] w of
        (r, framePaths, w1) \<Rightarrow>
          (let outcome =
             (case r of
                Inl e \<Rightarrow> Inl e
              | Inr colorCounts \<Rightarrow> Inr (pickBest colorCounts None 0))
           in (outcome, cleanupFrames env framePaths w1)))"

text \<open>A negative number.\<close>

definition negative :: "jsnumber \<Rightarrow> bool" where
  "negative x = (case x of Finite v \<Rightarrow> v < 0 | NegInfinity \<Rightarrow> True | _ \<Rightarrow> False)"

text \<open>
  Notions for the detection flow: the path of the frame file named by the \<open>k\<close>-th
  identifier, the \<^verbatim>\<open>ffmpeg\<close> calls of a trace, the hex vote a decoded frame casts, the
  tally of a list of votes, and the reading of the specification: the first vote, in
  frame order, that no other vote outnumbers.
\<close>

definition framePathOf :: "env \<Rightarrow> nat \<Rightarrow> string" where
  "framePathOf env k = path_join env (os_tmpdir env) (''frame_'' @ uuid env k @ ''.png'')"

fun ffmpegJobs :: "event list \<Rightarrow> ffmpeg_args list" where
  "ffmpegJobs [] = []"
| "ffmpegJobs (SpawnFfmpeg a # es) = a # ffmpegJobs es"
| "ffmpegJobs (e # es) = ffmpegJobs es"

definition hexVote :: "env \<Rightarrow> string \<Rightarrow> string list" where
  "hexVote env p =
     (case sharp_raw env p of
        Inl e \<Rightarrow> []
      | Inr f \<Rightarrow> (case analyzePixels f of None \<Rightarrow> [] | Some c \<Rightarrow> [rgbToHex c]))"

definition hexVotes :: "env \<Rightarrow> string list \<Rightarrow> string list" where
  "hexVotes env ps = concat (map (hexVote env) ps)"

definition tallyHex :: "string list \<Rightarrow> (string, nat) jsmap" where
  "tallyHex hs = foldl (\<lambda>m h. countHex h m) [] hs"

definition majority :: "string list \<Rightarrow> string option" where
  "majority hs = find (\<lambda>h. \<forall>h' \<in> set hs. count_list hs h' \<le> count_list hs h) hs"

text \<open>The entry of \<open>xs\<close> that the best-pick loop settles on: the first of maximal count above \<open>n\<close>.\<close>

definition wins :: "(string \<times> nat) list \<Rightarrow> nat \<Rightarrow> string \<Rightarrow> bool" where
  "wins xs n h =
     (\<exists>ys c zs. xs = ys @ (h, c) # zs \<and> n < c
        \<and> (\<forall>e \<in> set ys. snd e < c) \<and> (\<forall>e \<in> set zs. snd e \<le> c))"

text \<open>The frame files of one detection run that starts with \<open>n\<close> identifiers drawn.\<close>

definition threeFrames :: "env \<Rightarrow> nat \<Rightarrow> string list" where
  "threeFrames env n = [framePathOf env n, framePathOf env (Suc n), framePathOf env (Suc (Suc n))]"

text \<open>Reading a six-digit upper-case hex colour back into its three channel values.\<close>

definition hexValue :: "char \<Rightarrow> nat option" where
  "hexValue c = find (\<lambda>d. upperHexDigit d = c) [0..<16]"

definition hexByte :: "string \<Rightarrow> nat option" where
  "hexByte s =
     (case s of
        [a, b] \<Rightarrow>
          (case (hexValue a, hexValue b) of
             (Some x, Some y) \<Rightarrow> Some (16 * x + y)
           | _ \<Rightarrow> None)
      | _ \<Rightarrow> None)"

definition hexChannels :: "string \<Rightarrow> (nat \<times> nat \<times> nat) option" where
  "hexChannels s =
     (if length s = 6
      then (case (hexByte (take 2 s), hexByte (take 2 (drop 2 s)), hexByte (drop 4 s)) of
              (Some x, Some y, Some z) \<Rightarrow> Some (x, y, z)
            | _ \<Rightarrow> None)
      else None)"

text \<open>A quantized colour of byte channels: multiples of 8 between 0 and 248.\<close>

definition quantized :: "int \<times> int \<times> int \<Rightarrow> bool" where
  "quantized v = (case v of (x, y, z) \<Rightarrow>
      0 \<le> x \<and> x \<le> 248 \<and> 8 dvd x \<and> 0 \<le> y \<and> y \<le> 248 \<and> 8 dvd y \<and> 0 \<le> z \<and> z \<le> 248 \<and> 8 dvd z)"





section \<open>Encoding (ffmpeg.service.ts, processChromaKey)\<close>

record ProcessChromaKeyOptions =
  o_inputPath :: string
  o_outputDir :: string
  o_colorType :: ColorType
  o_resultSettings :: "PartialSettings option"
  o_maskSettings :: "PartialSettings option"
  o_sessionId :: "string option"

record ProcessedVideoResult =
  maskPath :: string
  resultPath :: string

definition processChromaKey ::
  "env \<Rightarrow> ProcessChromaKeyOptions \<Rightarrow> world \<Rightarrow> (error + ProcessedVideoResult) \<times> world" where
  "processChromaKey env options w =
     (let resultCS = getSettings (o_colorType options) (o_resultSettings options);
          maskCS = getSettings (o_colorType options) (o_maskSettings options);
          (id, w1) = (case o_sessionId options of Some s \<Rightarrow> (s, w) | None \<Rightarrow> uuidv4 env w);
          maskOutput = path_join env (o_outputDir options) (id @ ''_mask.webm'');
          resultOutput = path_join env (o_outputDir options) (id @ ''_result.webm'')
      in case mkdir env (o_outputDir options) w1 of
           (Inl e, w2) \<Rightarrow> (Inl e, w2)
         | (Inr _, w2) \<Rightarrow>
             (case runFfmpegCommand env (MaskArgs (o_inputPath options) maskCS maskOutput) w2 of
                (Inl e, w3) \<Rightarrow> (Inl e, w3)
              | (Inr _, w3) \<Rightarrow>
                  (case runFfmpegCommand env
                          (ResultArgs (o_inputPath options) resultCS resultOutput) w3 of
                     (Inl e, w4) \<Rightarrow> (Inl e, w4)
                   | (Inr _, w4) \<Rightarrow>
                       (Inr \<lparr>maskPath = maskOutput, resultPath = resultOutput\<rparr>, w4))))"

section \<open>Request pipeline (video.service.ts)\<close>

record UploadedFile =
  file_path :: string
  originalname :: string

record ProcessedVideoData =
  mask :: string
  result :: string

record ProcessVideoResponseDto =
  success :: bool
  response_data :: ProcessedVideoData

definition outputDir :: "env \<Rightarrow> string" where
  "outputDir env =
     path_join env (cwd env)
       (case config env ''OUTPUT_DIR'' of None \<Rightarrow> ''public/outputs'' | Some d \<Rightarrow> d)"

definition tempDir :: "env \<Rightarrow> string" where
  "tempDir env =
     path_join env (cwd env) (case config env ''TEMP_DIR'' of None \<Rightarrow> ''temp'' | Some d \<Rightarrow> d)"

text \<open>
  \<^verbatim>\<open>downloadVideo\<close>: creating the directory and parsing the URL happen before the
  \<^verbatim>\<open>try\<close>; a failure of the request or of the write becomes a
  \<^verbatim>\<open>BadRequestException\<close>.
\<close>

definition downloadVideo :: "env \<Rightarrow> string \<Rightarrow> string \<Rightarrow> world \<Rightarrow> (error + string) \<times> world" where
  "downloadVideo env url sessionId w =
     (case mkdir env (tempDir env) w of
        (Inl e, w1) \<Rightarrow> (Inl e, w1)
      | (Inr _, w1) \<Rightarrow>
          (case url_pathname env url of
             Inl e \<Rightarrow> (Inl e, w1)
           | Inr urlPath \<Rightarrow>
               (let ext = (if path_extname env urlPath = [] then ''.mp4''
                           else path_extname env urlPath);
                    outputPath = path_join env (tempDir env) (sessionId @ ''_input'' @ ext);
                    w2 = log_event (HttpGet url) w1
                in case http_get env url of
                     Inl e \<Rightarrow>
                       (Inl (BadRequestException
                               (''Failed to download video from URL: '' @ message e)), w2)
                   | Inr body \<Rightarrow>
                       (case writeFile env outputPath w2 of
                          (Inl e, w3) \<Rightarrow>
                            (Inl (BadRequestException
                                    (''Failed to download video from URL: '' @ message e)), w3)
                        | (Inr _, w3) \<Rightarrow> (Inr outputPath, w3)))))"

text \<open>
  Lines 60 to 71: the input path, and \<^verbatim>\<open>tempInputPath\<close> as it stands when the
  \<^verbatim>\<open>finally\<close> block runs.
\<close>

definition resolveInput ::
  "env \<Rightarrow> ProcessVideoDto \<Rightarrow> UploadedFile option \<Rightarrow> string \<Rightarrow> world
   \<Rightarrow> (error + string) \<times> string option \<times> world" where
  "resolveInput env dto uploadedFile sessionId w =
     (case uploadedFile of
        Some u \<Rightarrow> (Inr (file_path u), None, w)
      | None \<Rightarrow>
          (if truthy (videoUrl dto)
           then (case downloadVideo env (the (videoUrl dto)) sessionId w of
                   (Inl e, w1) \<Rightarrow> (Inl e, None, w1)
                 | (Inr tempInputPath, w1) \<Rightarrow> (Inr tempInputPath, Some tempInputPath, w1))
           else (Inl (BadRequestException ''Either video file or videoUrl must be provided''),
                 None, w)))"

text \<open>Lines 74 to 84.\<close>

definition detectColor ::
  "env \<Rightarrow> ProcessVideoDto \<Rightarrow> string \<Rightarrow> world \<Rightarrow> (error + string option) \<times> world" where
  "detectColor env dto inputPath w =
     (if autoDetectColor dto = Some True
      then (case findDominantChromaColor env inputPath (colorType dto) w of
              (Inl e, w1) \<Rightarrow> (Inl e, w1)
            | (Inr detected, w1) \<Rightarrow> (Inr (if truthy detected then detected else None), w1))
      else (Inr None, w))"

definition buildResponse ::
  "env \<Rightarrow> string option \<Rightarrow> ProcessedVideoResult \<Rightarrow> ProcessVideoResponseDto" where
  "buildResponse env baseUrl res =
     (let maskFilename = path_basename env (maskPath res);
          resultFilename = path_basename env (resultPath res);
          port = (case config env ''PORT'' of None \<Rightarrow> ''3000'' | Some p \<Rightarrow> p);
          host = (case baseUrl of None \<Rightarrow> ''http://localhost:'' @ port | Some b \<Rightarrow> b)
      in \<lparr>success = True,
          response_data = \<lparr>mask = host @ ''/outputs/'' @ maskFilename,
                           result = host @ ''/outputs/'' @ resultFilename\<rparr>\<rparr>)"

text \<open>The \<^verbatim>\<open>try\<close> block of \<^verbatim>\<open>processVideo\<close>, lines 58 to 149.\<close>

definition processVideo_try ::
  "env \<Rightarrow> ProcessVideoDto \<Rightarrow> UploadedFile option \<Rightarrow> string option \<Rightarrow> string \<Rightarrow> world
   \<Rightarrow> (error + ProcessVideoResponseDto) \<times> string option \<times> world" where
  "processVideo_try env dto uploadedFile baseUrl sessionId w =
     (case resolveInput env dto uploadedFile sessionId w of
        (Inl e, tempInputPath, w1) \<Rightarrow> (Inl e, tempInputPath, w1)
      | (Inr inputPath, tempInputPath, w1) \<Rightarrow>
          (case detectColor env dto inputPath w1 of
             (Inl e, w2) \<Rightarrow> (Inl e, tempInputPath, w2)
           | (Inr detectedColor, w2) \<Rightarrow>
               (let resultSettings = build_resultSettings dto detectedColor;
                    maskSettings = build_maskSettings dto detectedColor
                in case processChromaKey env
                          \<lparr>o_inputPath = inputPath, o_outputDir = outputDir env,
                           o_colorType = colorType dto,
                           o_resultSettings = Some resultSettings,
                           o_maskSettings = Some maskSettings,
                           o_sessionId = Some sessionId\<rparr> w2 of
                     (Inl e, w3) \<Rightarrow> (Inl e, tempInputPath, w3)
                   | (Inr res, w3) \<Rightarrow> (Inr (buildResponse env baseUrl res), tempInputPath, w3))))"

text \<open>
  \<^verbatim>\<open>processVideo\<close>: the \<^verbatim>\<open>try\<close> block, then the \<^verbatim>\<open>finally\<close> block of lines 150
  to 168, whose unlink errors are dropped.
\<close>

definition processVideo ::
  "env \<Rightarrow> ProcessVideoDto \<Rightarrow> UploadedFile option \<Rightarrow> string option \<Rightarrow> world
   \<Rightarrow> (error + ProcessVideoResponseDto) \<times> world" where
  "processVideo env dto uploadedFile baseUrl w =
     (let (sessionId, w0) = uuidv4 env w
      in case processVideo_try env dto uploadedFile baseUrl sessionId w0 of
           (outcome, tempInputPath, w1) \<Rightarrow>
             (let w2 = (if truthy tempInputPath
                        then snd (unlink env (the tempInputPath) w1) else w1);
                  w3 = (case uploadedFile of
                          None \<Rightarrow> w2
                        | Some u \<Rightarrow>
                            (if file_path u \<noteq> [] then snd (unlink env (file_path u) w2)
                             else w2))
              in (outcome, w3)))"

section \<open>Sample environments\<close>

text \<open>
  An environment in which every external call succeeds: \<^verbatim>\<open>ffprobe\<close> prints a duration
  of ten seconds, every frame decodes to two pure green pixels, every file operation works,
  and the arithmetic is exact (as it is on the numbers that occur). The concrete cases
  below are variations of it.
\<close>

definition sample_env :: env where
  "sample_env =
     \<lparr>ffmpeg_run = (\<lambda>a. Closed (Some 0) [] True),
      ffprobe_run = (\<lambda>p. ProbeClosed (Some 0) [''10.0'', [CHR 0x0A]]),
      parseFloat = (\<lambda>s. if s = ''10.0'' then Finite 10
                         else if s = ''-1.5'' then Finite (- 1.5) else NotANumber),
      to_double = (\<lambda>v. Finite v),
      number_toString = (\<lambda>v. []),
      sharp_raw = (\<lambda>p. Inr \<lparr>data = [0, 255, 0, 0, 255, 0], channels = Ch3\<rparr>),
      unlink_error = (\<lambda>p. None),
      mkdir_error = (\<lambda>p. None),
      http_get = (\<lambda>u. Inr []),
      writeFile_error = (\<lambda>p. None),
      uuid = (\<lambda>n. showNat n),
      os_tmpdir = ''/tmp'',
      cwd = ''/app'',
      config = (\<lambda>k. None),
      path_join = (\<lambda>a b. a @ ''/'' @ b),
      path_basename = (\<lambda>p. rev (takeWhile (\<lambda>c. c \<noteq> CHR ''/'') (rev p))),
      path_extname = (\<lambda>p. []),
      url_pathname = (\<lambda>u. Inr u)\<rparr>"

definition sample_world :: world where
  "sample_world = \<lparr>files = {''/uploads/in.mp4''}, uuids = 0, trace = []\<rparr>"


text \<open>
  A request with an uploaded file that asks for colour detection, and a variation of the
  sample environment in which the \<^verbatim>\<open>ffmpeg\<close> run for the second sampled frame writes
  its frame file and then exits with code 1.
\<close>

definition sample_dto :: ProcessVideoDto where
  "sample_dto =
     \<lparr>videoUrl = None, colorType = green, autoDetectColor = Some True, dto_color = None,
      dto_similarity = None, dto_blend = None, mask_similarity = None, mask_blend = None\<rparr>"

definition sample_upload :: UploadedFile where
  "sample_upload = \<lparr>file_path = ''/uploads/in.mp4'', originalname = ''in.mp4''\<rparr>"

definition failing_env :: env where
  "failing_env =
     sample_env\<lparr>ffmpeg_run :=
       (\<lambda>a. if outputFile a = ''/tmp/frame_2.png''
            then Closed (Some 1) [''Conversion failed!''] True
            else Closed (Some 0) [] True)\<rparr>"

section \<open>Verified properties\<close>

subsection \<open>Settings resolver\<close>

text \<open>
  C2. For either colour type and any override set, \<^verbatim>\<open>getSettings\<close> is the field-wise
  merge of the preset with the overrides: a field absent from the overrides has the
  preset's value, a field present has the override's value.
\<close>

theorem getSettings_merge:
  "color (getSettings t (Some ov)) =
     (case p_color ov of None \<Rightarrow> color (preset t) | Some c \<Rightarrow> c)
   \<and> similarity (getSettings t (Some ov)) =
     (case p_similarity ov of None \<Rightarrow> similarity (preset t) | Some s \<Rightarrow> s)
   \<and> blend (getSettings t (Some ov)) =
     (case p_blend ov of None \<Rightarrow> blend (preset t) | Some b \<Rightarrow> b)
   \<and> getSettings t None = preset t
   \<and> preset green = \<lparr>color = ''00FF00'', similarity = 0.01, blend = 0.08\<rparr>
   \<and> preset blue = \<lparr>color = ''0000FF'', similarity = 0.3, blend = 0.1\<rparr>"
  by (cases t)
    (simp_all add: getSettings_def spread_def preset_def GREEN_SCREEN_SETTINGS_def
      BLUE_SCREEN_SETTINGS_def split: option.splits)

subsection \<open>Colour conversion\<close>

lemma upper_hexDigit_all:
  "\<forall>d \<in> set [0..<16]. toUpperChar (hexDigit d) = upperHexDigit d"
  by code_simp

lemma upper_hexDigit: "d < 16 \<Longrightarrow> toUpperChar (hexDigit d) = upperHexDigit d"
  using upper_hexDigit_all by simp

lemma pad_natToString16:
  assumes "m < 256"
  shows "toUpperCase (padStart 2 (CHR ''0'') (natToString16 m)) = hex2 m"
proof (cases "m < 16")
  case True
  have z: "toUpperChar (CHR ''0'') = upperHexDigit 0"
    using upper_hexDigit[of 0] by (simp add: hexDigit_def)
  have "natToString16 m = [hexDigit m]"
    using True by (subst natToString16.simps) simp
  then show ?thesis
    using True upper_hexDigit[of m] z
    by (simp add: padStart_def toUpperCase_def hex2_def)
next
  case False
  then have d: "m div 16 < 16" using assms by simp
  have "natToString16 (m div 16) = [hexDigit (m div 16)]"
    using d by (subst natToString16.simps) simp
  then have "natToString16 m = [hexDigit (m div 16), hexDigit (m mod 16)]"
    using False by (subst natToString16.simps) simp
  then show ?thesis
    using d upper_hexDigit[of "m div 16"] upper_hexDigit[of "m mod 16"]
    by (simp add: padStart_def toUpperCase_def hex2_def)
qed

lemma toHex_Num: "toUpperCase (toHex (Num n)) = hex2 (clamp255 n)"
proof -
  have "toHex (Num n) = padStart 2 (CHR ''0'') (natToString16 (clamp255 n))"
    by (auto simp: toHex_def math_min_def math_max_def toString16_def clamp255_def)
  moreover have "clamp255 n < 256"
    by (auto simp: clamp255_def)
  ultimately show ?thesis
    by (simp add: pad_natToString16)
qed

lemma upperHexDigit_in: "d < 16 \<Longrightarrow> upperHexDigit d \<in> set ''0123456789ABCDEF''"
  unfolding upperHexDigit_def by (rule nth_mem) simp

lemma hex2_chars: "n < 256 \<Longrightarrow> set (hex2 n) \<subseteq> set ''0123456789ABCDEF''"
  using upperHexDigit_in[of "n div 16"] upperHexDigit_in[of "n mod 16"]
  by (simp add: hex2_def)

lemma clamp255_lt: "clamp255 n < 256"
  by (auto simp: clamp255_def)

lemma rgbToHex_Num:
  "rgbToHex \<lparr>rgb_r = Num x, rgb_g = Num y, rgb_b = Num z\<rparr> =
     hex2 (clamp255 x) @ hex2 (clamp255 y) @ hex2 (clamp255 z)"
  using toHex_Num[of x] toHex_Num[of y] toHex_Num[of z]
  by (simp add: rgbToHex_def toUpperCase_def)

text \<open>
  C9. On every triple of integer channels \<^verbatim>\<open>rgbToHex\<close> returns a value: each channel
  clamped to \<open>[0,255]\<close> and written as two upper-case hexadecimal digits, six characters
  in all. It maps \<open>(0,255,0)\<close> to \<^verbatim>\<open>00FF00\<close> and \<open>(300,-5,128)\<close> to \<^verbatim>\<open>FF0080\<close>.
\<close>

theorem rgbToHex_total_clamped:
  "rgbToHex \<lparr>rgb_r = Num x, rgb_g = Num y, rgb_b = Num z\<rparr> =
     hex2 (clamp255 x) @ hex2 (clamp255 y) @ hex2 (clamp255 z)
   \<and> length (rgbToHex \<lparr>rgb_r = Num x, rgb_g = Num y, rgb_b = Num z\<rparr>) = 6
   \<and> set (rgbToHex \<lparr>rgb_r = Num x, rgb_g = Num y, rgb_b = Num z\<rparr>)
       \<subseteq> set ''0123456789ABCDEF''
   \<and> clamp255 x \<le> 255 \<and> clamp255 y \<le> 255 \<and> clamp255 z \<le> 255
   \<and> rgbToHex \<lparr>rgb_r = Num 0, rgb_g = Num 255, rgb_b = Num 0\<rparr> = ''00FF00''
   \<and> rgbToHex \<lparr>rgb_r = Num 300, rgb_g = Num (- 5), rgb_b = Num 128\<rparr> = ''FF0080''"
proof -
  have chars: "set (hex2 (clamp255 x) @ hex2 (clamp255 y) @ hex2 (clamp255 z))
      \<subseteq> set ''0123456789ABCDEF''"
    using hex2_chars[OF clamp255_lt[of x]] hex2_chars[OF clamp255_lt[of y]]
      hex2_chars[OF clamp255_lt[of z]]
    by (simp only: set_append Un_subset_iff)
  have len: "length (hex2 (clamp255 x) @ hex2 (clamp255 y) @ hex2 (clamp255 z)) = 6"
    by (simp add: hex2_def)
  have bound: "clamp255 x \<le> 255 \<and> clamp255 y \<le> 255 \<and> clamp255 z \<le> 255"
    using clamp255_lt[of x] clamp255_lt[of y] clamp255_lt[of z] by simp
  have e1: "rgbToHex \<lparr>rgb_r = Num 0, rgb_g = Num 255, rgb_b = Num 0\<rparr> = ''00FF00''"
    by (simp add: rgbToHex_Num hex2_def clamp255_def upperHexDigit_def)
  have e2: "rgbToHex \<lparr>rgb_r = Num 300, rgb_g = Num (- 5), rgb_b = Num 128\<rparr> = ''FF0080''"
    by (simp add: rgbToHex_Num hex2_def clamp255_def upperHexDigit_def)
  show ?thesis
    unfolding rgbToHex_Num using chars len bound e1[unfolded rgbToHex_Num] e2[unfolded rgbToHex_Num]
    by blast
qed

subsection \<open>Settings of the two passes\<close>

lemma truthy_Some: "truthy (Some s) = (s \<noteq> [])"
  by (simp add: truthy_def)

lemma matchesHex6_truthy: "matchesHex6 c \<Longrightarrow> truthy (Some c)"
  by (auto simp: matchesHex6_def truthy_def)

lemma mask_color:
  "color (maskChromaSettings dto dc) =
     (if truthy dc then the dc
      else if truthy (dto_color dto) then toUpperCase (the (dto_color dto))
      else color (preset (colorType dto)))"
  by (cases "colorType dto"; cases dc; cases "dto_color dto")
    (simp_all add: maskChromaSettings_def build_maskSettings_def getSettings_def spread_def
      preset_def truthy_def Let_def)

lemma result_color:
  "color (resultChromaSettings dto dc) =
     (if truthy dc then the dc
      else if truthy (dto_color dto) then toUpperCase (the (dto_color dto))
      else color (preset (colorType dto)))"
  by (cases "colorType dto"; cases dc; cases "dto_color dto")
    (simp_all add: resultChromaSettings_def build_resultSettings_def getSettings_def spread_def
      preset_def truthy_def Let_def)

lemma mask_unfold:
  "maskChromaSettings dto dc =
     getSettings (colorType dto)
       (Some \<lparr>p_color = (if truthy dc then dc
                         else if truthy (dto_color dto)
                         then map_option toUpperCase (dto_color dto) else None),
              p_similarity = mask_similarity dto, p_blend = mask_blend dto\<rparr>)"
  by (cases "mask_similarity dto"; cases "mask_blend dto")
    (simp_all add: maskChromaSettings_def build_maskSettings_def Let_def)

lemma result_unfold:
  "resultChromaSettings dto dc =
     getSettings (colorType dto)
       (Some \<lparr>p_color = (if truthy dc then dc
                         else if truthy (dto_color dto)
                         then map_option toUpperCase (dto_color dto) else None),
              p_similarity = dto_similarity dto, p_blend = dto_blend dto\<rparr>)"
  by (cases "dto_similarity dto"; cases "dto_blend dto")
    (simp_all add: resultChromaSettings_def build_resultSettings_def Let_def)

text \<open>
  C1. The mask settings are determined by the colour type, the shared colour inputs (the
  detection flag and result, the user colour) and the mask-scoped overrides; the result
  settings by the colour type, the shared colour inputs and the result-scoped overrides.
  Changing \<^verbatim>\<open>similarity\<close> or \<^verbatim>\<open>blend\<close> of a request leaves its mask settings as
  they are, and changing \<^verbatim>\<open>mask_similarity\<close> or \<^verbatim>\<open>mask_blend\<close> leaves its result
  settings as they are.
\<close>

theorem pass_settings_independent:
  "(colorType d1 = colorType d2 \<and> autoDetectColor d1 = autoDetectColor d2
      \<and> dto_color d1 = dto_color d2
      \<and> mask_similarity d1 = mask_similarity d2 \<and> mask_blend d1 = mask_blend d2
    \<longrightarrow> maskChromaSettings d1 (detectedColor_of d1 found)
        = maskChromaSettings d2 (detectedColor_of d2 found))
   \<and> (colorType d1 = colorType d2 \<and> autoDetectColor d1 = autoDetectColor d2
      \<and> dto_color d1 = dto_color d2
      \<and> dto_similarity d1 = dto_similarity d2 \<and> dto_blend d1 = dto_blend d2
    \<longrightarrow> resultChromaSettings d1 (detectedColor_of d1 found)
        = resultChromaSettings d2 (detectedColor_of d2 found))
   \<and> maskChromaSettings (dto\<lparr>dto_similarity := s, dto_blend := b\<rparr>)
        (detectedColor_of (dto\<lparr>dto_similarity := s, dto_blend := b\<rparr>) found)
      = maskChromaSettings dto (detectedColor_of dto found)
   \<and> resultChromaSettings (dto\<lparr>mask_similarity := s, mask_blend := b\<rparr>)
        (detectedColor_of (dto\<lparr>mask_similarity := s, mask_blend := b\<rparr>) found)
      = resultChromaSettings dto (detectedColor_of dto found)"
proof -
  have m: "colorType d1 = colorType d2 \<and> autoDetectColor d1 = autoDetectColor d2
      \<and> dto_color d1 = dto_color d2
      \<and> mask_similarity d1 = mask_similarity d2 \<and> mask_blend d1 = mask_blend d2
    \<longrightarrow> maskChromaSettings d1 (detectedColor_of d1 found)
        = maskChromaSettings d2 (detectedColor_of d2 found)"
    by (simp add: mask_unfold detectedColor_of_def)
  have r: "colorType d1 = colorType d2 \<and> autoDetectColor d1 = autoDetectColor d2
      \<and> dto_color d1 = dto_color d2
      \<and> dto_similarity d1 = dto_similarity d2 \<and> dto_blend d1 = dto_blend d2
    \<longrightarrow> resultChromaSettings d1 (detectedColor_of d1 found)
        = resultChromaSettings d2 (detectedColor_of d2 found)"
    by (simp add: result_unfold detectedColor_of_def)
  have mu: "maskChromaSettings (dto\<lparr>dto_similarity := s, dto_blend := b\<rparr>)
        (detectedColor_of (dto\<lparr>dto_similarity := s, dto_blend := b\<rparr>) found)
      = maskChromaSettings dto (detectedColor_of dto found)"
    by (simp add: mask_unfold detectedColor_of_def)
  have ru: "resultChromaSettings (dto\<lparr>mask_similarity := s, mask_blend := b\<rparr>)
        (detectedColor_of (dto\<lparr>mask_similarity := s, mask_blend := b\<rparr>) found)
      = resultChromaSettings dto (detectedColor_of dto found)"
    by (simp add: result_unfold detectedColor_of_def)
  show ?thesis
    using m r mu ru by blast
qed

theorem pass_settings_independent_witness:
  "maskChromaSettings
     \<lparr>videoUrl = None, colorType = green, autoDetectColor = None, dto_color = None,
      dto_similarity = Some 0.3, dto_blend = Some 0.1,
      mask_similarity = None, mask_blend = None\<rparr> None
   = maskChromaSettings
     \<lparr>videoUrl = None, colorType = green, autoDetectColor = None, dto_color = None,
      dto_similarity = None, dto_blend = None,
      mask_similarity = None, mask_blend = None\<rparr> None
   \<and> maskChromaSettings
     \<lparr>videoUrl = None, colorType = green, autoDetectColor = None, dto_color = None,
      dto_similarity = Some 0.3, dto_blend = Some 0.1,
      mask_similarity = None, mask_blend = None\<rparr> None
   = \<lparr>color = ''00FF00'', similarity = 0.01, blend = 0.08\<rparr>
   \<and> resultChromaSettings
     \<lparr>videoUrl = None, colorType = green, autoDetectColor = None, dto_color = None,
      dto_similarity = Some 0.3, dto_blend = Some 0.1,
      mask_similarity = None, mask_blend = None\<rparr> None
   = \<lparr>color = ''00FF00'', similarity = 0.3, blend = 0.1\<rparr>"
  using pass_settings_independent
    [of "\<lparr>videoUrl = None, colorType = green, autoDetectColor = None, dto_color = None,
          dto_similarity = Some 0.3, dto_blend = Some 0.1,
          mask_similarity = None, mask_blend = None\<rparr>"
        "\<lparr>videoUrl = None, colorType = green, autoDetectColor = None, dto_color = None,
          dto_similarity = None, dto_blend = None,
          mask_similarity = None, mask_blend = None\<rparr>" None]
  by (simp add: detectedColor_of_def maskChromaSettings_def resultChromaSettings_def
      build_maskSettings_def build_resultSettings_def getSettings_def spread_def
      GREEN_SCREEN_SETTINGS_def truthy_def)

subsection \<open>Dominant colour of a frame\<close>

lemma map_of_jsmap_set: "map_of (jsmap_set k v m) = (map_of m)(k \<mapsto> v)"
  by (induction m) (auto simp: fun_eq_iff)

lemma keys_jsmap_set_in: "k \<in> fst ` set m \<Longrightarrow> map fst (jsmap_set k v m) = map fst m"
  by (induction m) force+

lemma keys_jsmap_set_notin:
  "k \<notin> fst ` set m \<Longrightarrow> map fst (jsmap_set k v m) = map fst m @ [k]"
  by (induction m) auto

lemma keys_jsmap_set:
  "map fst (jsmap_set k v m) = (if k \<in> fst ` set m then map fst m else map fst m @ [k])"
  by (simp add: keys_jsmap_set_in keys_jsmap_set_notin)

lemma distinct_jsmap_set: "distinct (map fst m) \<Longrightarrow> distinct (map fst (jsmap_set k v m))"
  by (simp add: keys_jsmap_set)

lemma keyOf_inj: "keyOf p = keyOf q \<Longrightarrow> p = q"
  by (auto simp: keyOf_def split: prod.splits)

lemma tallied_Nil: "tallied [] []"
  by (simp add: tallied_def)

lemma talliedD1: "tallied vs m \<Longrightarrow> distinct (map fst m)"
  unfolding tallied_def by blast

lemma talliedD2:
  "tallied vs m \<Longrightarrow> map_of m (keyOf v) =
     (if v \<in> set vs then Some \<lparr>rgb = rgbOf v, count = count_list vs v\<rparr> else None)"
  unfolding tallied_def by blast

lemma talliedD3: "tallied vs m \<Longrightarrow> k \<in> fst ` set m \<Longrightarrow> \<exists>v \<in> set vs. k = keyOf v"
  unfolding tallied_def by blast

lemma voteP_unfold:
  "voteP v m =
     (case map_of m (keyOf v) of
        Some e \<Rightarrow> jsmap_set (keyOf v) (e\<lparr>count := count e + 1\<rparr>) m
      | None \<Rightarrow> jsmap_set (keyOf v) \<lparr>rgb = rgbOf v, count = 1\<rparr> m)"
  by (cases v)
    (simp add: voteP_def vote_def keyOf_def rgbOf_def jsmap_get_def Let_def split: option.splits)

lemma tallied_step:
  assumes "tallied vs m"
  shows "tallied (vs @ [v]) (voteP v m)"
proof -
  note d = talliedD1[OF assms] and mo = talliedD2[OF assms] and ks = talliedD3[OF assms]
  have "voteP v m = jsmap_set (keyOf v) \<lparr>rgb = rgbOf v, count = count_list (vs @ [v]) v\<rparr> m"
    using mo[of v] by (cases "v \<in> set vs") (simp_all add: voteP_unfold)
  then obtain e where vp: "voteP v m = jsmap_set (keyOf v) e m"
    and e: "e = \<lparr>rgb = rgbOf v, count = count_list (vs @ [v]) v\<rparr>"
    by blast
  have 1: "distinct (map fst (voteP v m))"
    unfolding vp using d by (rule distinct_jsmap_set)
  have 2: "map_of (voteP v m) (keyOf u) =
            (if u \<in> set (vs @ [v]) then Some \<lparr>rgb = rgbOf u, count = count_list (vs @ [v]) u\<rparr>
             else None)" for u
  proof (cases "u = v")
    case True
    then show ?thesis by (simp add: vp map_of_jsmap_set e)
  next
    case False
    then have "keyOf u \<noteq> keyOf v" using keyOf_inj by blast
    then show ?thesis using False mo[of u] by (simp add: vp map_of_jsmap_set)
  qed
  have 3: "\<exists>u \<in> set (vs @ [v]). k = keyOf u" if "k \<in> fst ` set (voteP v m)" for k
  proof -
    from that have "k \<in> set (map fst (jsmap_set (keyOf v) e m))" by (simp add: vp)
    then have "k = keyOf v \<or> k \<in> fst ` set m"
      by (cases "keyOf v \<in> fst ` set m") (simp_all add: keys_jsmap_set)
    then show ?thesis
    proof
      assume "k = keyOf v"
      then show ?thesis by simp
    next
      assume "k \<in> fst ` set m"
      from ks[OF this] obtain u where "u \<in> set vs" "k = keyOf u" by blast
      then show ?thesis by auto
    qed
  qed
  show ?thesis
    unfolding tallied_def using 1 2 3 by blast
qed

lemma tallied_foldl:
  "tallied vs m \<Longrightarrow> tallied (vs @ ws) (foldl (\<lambda>m v. voteP v m) m ws)"
proof (induction ws arbitrary: vs m)
  case Nil
  then show ?case by simp
next
  case (Cons w ws)
  from Cons.IH[OF tallied_step[OF Cons.prems, of w]] show ?case by simp
qed

lemma mostFrequent_None: "mostFrequent m = None \<longleftrightarrow> m = []"
proof -
  let ?s = "sort_key (\<lambda>e. - int (count e)) (jsmap_values m)"
  have "length ?s = length m" by (simp add: jsmap_values_def)
  then have "?s = [] \<longleftrightarrow> m = []"
    unfolding length_0_conv[symmetric] by (simp only:)
  then show ?thesis
    by (auto simp: mostFrequent_def Let_def split: list.splits)
qed

lemma mostFrequent_Some:
  assumes "mostFrequent m = Some c"
  shows "\<exists>e \<in> snd ` set m. c = rgb e \<and> (\<forall>e' \<in> snd ` set m. count e' \<le> count e)"
proof -
  let ?f = "\<lambda>e. - int (count e)"
  let ?s = "sort_key ?f (jsmap_values m)"
  from assms obtain e rest where s: "?s = e # rest" and c: "c = rgb e"
    by (auto simp: mostFrequent_def Let_def split: list.splits)
  have set: "set ?s = snd ` set m" by (simp add: jsmap_values_def)
  have "sorted (map ?f ?s)" by (rule sorted_sort_key)
  then have "\<forall>e' \<in> set rest. ?f e \<le> ?f e'" by (simp add: s)
  then have "\<forall>e' \<in> set ?s. count e' \<le> count e" by (auto simp: s)
  moreover have "e \<in> set ?s" by (simp add: s)
  ultimately show ?thesis using c set by auto
qed

lemma tallied_entries:
  assumes "tallied vs m"
  shows "snd ` set m = (\<lambda>v. \<lparr>rgb = rgbOf v, count = count_list vs v\<rparr>) ` set vs"
proof (intro set_eqI iffI)
  fix e assume "e \<in> snd ` set m"
  then obtain k where ke: "(k, e) \<in> set m" by auto
  then have "k \<in> fst ` set m" by force
  then obtain v where v: "v \<in> set vs" "k = keyOf v" using talliedD3[OF assms] by blast
  have "map_of m k = Some e" using ke talliedD1[OF assms] by simp
  then have "e = \<lparr>rgb = rgbOf v, count = count_list vs v\<rparr>"
    using v talliedD2[OF assms, of v] by simp
  then show "e \<in> (\<lambda>v. \<lparr>rgb = rgbOf v, count = count_list vs v\<rparr>) ` set vs"
    using v by blast
next
  fix e assume "e \<in> (\<lambda>v. \<lparr>rgb = rgbOf v, count = count_list vs v\<rparr>) ` set vs"
  then obtain v where v: "v \<in> set vs" "e = \<lparr>rgb = rgbOf v, count = count_list vs v\<rparr>" by auto
  then have "map_of m (keyOf v) = Some e" using talliedD2[OF assms, of v] by simp
  then have "(keyOf v, e) \<in> set m" by (rule map_of_SomeD)
  then show "e \<in> snd ` set m" by force
qed

lemma tallied_mostFrequent:
  assumes "tallied vs m"
  shows "(mostFrequent m = None \<longleftrightarrow> vs = [])
    \<and> (\<forall>c. mostFrequent m = Some c \<longrightarrow>
          (\<exists>v \<in> set vs. c = rgbOf v \<and> (\<forall>u \<in> set vs. count_list vs u \<le> count_list vs v)))"
proof -
  note en = tallied_entries[OF assms]
  have "(set m = {}) = (set vs = {})"
    using en image_is_empty[of snd "set m"]
      image_is_empty[of "\<lambda>v. \<lparr>rgb = rgbOf v, count = count_list vs v\<rparr>" "set vs"]
    by simp
  then have "m = [] \<longleftrightarrow> vs = []" by simp
  then have a: "mostFrequent m = None \<longleftrightarrow> vs = []" by (simp add: mostFrequent_None)
  have b: "\<exists>v \<in> set vs. c = rgbOf v \<and> (\<forall>u \<in> set vs. count_list vs u \<le> count_list vs v)"
    if "mostFrequent m = Some c" for c
    using mostFrequent_Some[OF that] unfolding en by auto
  show ?thesis using a b by blast
qed

lemma rgbFrame_len:
  assumes "rgbFrame f"
  shows "length (data f) = (length (data f) div channels_nat (channels f)) * channels_nat (channels f)"
proof -
  have "length (data f) mod channels_nat (channels f) = 0"
    using assms by (simp add: rgbFrame_def)
  then show ?thesis
    using div_mult_mod_eq[of "length (data f)" "channels_nat (channels f)"] by simp
qed

lemma foldl_castVote:
  "foldl castVote m ps = foldl (\<lambda>m v. voteP v m) m (map bucketOf (filter (\<lambda>p. \<not> excluded p) ps))"
  by (induction ps arbitrary: m) (simp_all add: castVote_def)

lemma scan_step:
  assumes rf: "rgbFrame f"
    and k: "k < length (data f) div channels_nat (channels f)"
  shows "scanPixels f (k * channels_nat (channels f)) m =
     scanPixels f (Suc k * channels_nat (channels f)) (castVote m (pixelAt f k))"
proof -
  define c where "c = channels_nat (channels f)"
  define n where "n = length (data f) div c"
  have c3: "3 \<le> c" using rf by (simp add: rgbFrame_def c_def)
  have len: "length (data f) = n * c" using rgbFrame_len[OF rf] by (simp add: n_def c_def)
  have kn: "Suc k \<le> n" using k by (simp add: n_def c_def)
  have "Suc k * c \<le> n * c" using kn by (rule mult_le_mono1)
  then have le: "k * c + c \<le> length (data f)" by (simp add: len)
  have i0: "k * c < length (data f)" and i1: "k * c + 1 < length (data f)"
    and i2: "k * c + 2 < length (data f)"
    using le c3 by simp_all
  have b0: "byteAt (data f) (k * c) = Num (uint (data f ! (k * c)))"
    and b1: "byteAt (data f) (k * c + 1) = Num (uint (data f ! (k * c + 1)))"
    and b2: "byteAt (data f) (k * c + 2) = Num (uint (data f ! (k * c + 2)))"
    using i0 i1 i2 by (simp_all add: byteAt_def)
  have px: "pixelAt f k = (uint (data f ! (k * c)), uint (data f ! (k * c + 1)),
      uint (data f ! (k * c + 2)))"
    by (simp add: pixelAt_def c_def Let_def)
  have nx: "Suc k * c = k * c + c" by simp
  show ?thesis
    unfolding c_def[symmetric] nx
    apply (subst scanPixels.simps)
    apply (simp only: c_def[symmetric] i0 if_True b0 b1 b2 Let_def)
    apply (simp add: px castVote_def excluded_def js_lt_def js_gt_def quantize_def voteP_def
        bucketOf_def bucket_def)
    done
qed

lemma scan_fold:
  assumes rf: "rgbFrame f"
  shows "k \<le> length (data f) div channels_nat (channels f) \<Longrightarrow>
     scanPixels f (k * channels_nat (channels f)) m =
     foldl castVote m (map (pixelAt f) [k..<length (data f) div channels_nat (channels f)])"
proof (induction "length (data f) div channels_nat (channels f) - k" arbitrary: k m)
  case 0
  then have "k = length (data f) div channels_nat (channels f)" by simp
  then have "k * channels_nat (channels f) = length (data f)"
    using rgbFrame_len[OF rf] by simp
  then show ?case
    using 0 by (subst scanPixels.simps) simp
next
  case (Suc d)
  then have k: "k < length (data f) div channels_nat (channels f)" by simp
  have d: "d = length (data f) div channels_nat (channels f) - Suc k" using Suc.hyps(2) by simp
  have "scanPixels f (Suc k * channels_nat (channels f)) (castVote m (pixelAt f k)) =
     foldl castVote (castVote m (pixelAt f k))
       (map (pixelAt f) [Suc k..<length (data f) div channels_nat (channels f)])"
    using Suc.hyps(1)[OF d] k by simp
  then show ?case
    using k by (simp add: scan_step[OF rf k] upt_conv_Cons)
qed

lemma scan_votes:
  assumes "rgbFrame f"
  shows "scanPixels f 0 [] = foldl (\<lambda>m v. voteP v m) [] (votes f)"
  using scan_fold[OF assms, of 0 "[]"]
  by (simp add: foldl_castVote votes_def pixels_def)

lemma scan_tallied:
  assumes "rgbFrame f"
  shows "tallied (votes f) (scanPixels f 0 [])"
  using tallied_foldl[OF tallied_Nil, of "votes f"] by (simp add: scan_votes[OF assms])

text \<open>
  C4. On a frame of whole RGB or RGBA pixels, \<^verbatim>\<open>analyzeFrameColors\<close> leaves out every
  pixel whose three channels are all below 30 or all above 240, quantizes each channel of
  the others to \<open>\<lfloor>v/8\<rfloor>*8\<close> (so \<open>(103,250,12)\<close> votes as \<open>(96,248,8)\<close>), counts the votes
  per quantized colour, and returns a quantized colour with the highest count, or nothing
  when no pixel votes; a frame of excluded pixels only yields nothing.
\<close>

theorem analyzePixels_dominant:
  assumes "rgbFrame f"
  shows "(analyzePixels f = None \<longleftrightarrow> votes f = [])
    \<and> (\<forall>c. analyzePixels f = Some c \<longrightarrow>
          (\<exists>v \<in> set (votes f). c = rgbOf v
             \<and> (\<forall>u \<in> set (votes f). count_list (votes f) u \<le> count_list (votes f) v)))
    \<and> ((\<forall>p \<in> set (pixels f). excluded p) \<longrightarrow> analyzePixels f = None)
    \<and> bucketOf (103, 250, 12) = (96, 248, 8)"
proof -
  note t = tallied_mostFrequent[OF scan_tallied[OF assms]]
  have a: "analyzePixels f = None \<longleftrightarrow> votes f = []"
    using t by (simp add: analyzePixels_def)
  have b: "\<forall>c. analyzePixels f = Some c \<longrightarrow>
          (\<exists>v \<in> set (votes f). c = rgbOf v
             \<and> (\<forall>u \<in> set (votes f). count_list (votes f) u \<le> count_list (votes f) v))"
    using t by (simp add: analyzePixels_def)
  have "votes f = []" if "\<forall>p \<in> set (pixels f). excluded p"
    using that by (simp add: votes_def)
  then have c: "(\<forall>p \<in> set (pixels f). excluded p) \<longrightarrow> analyzePixels f = None"
    using a by blast
  have d: "bucketOf (103, 250, 12) = (96, 248, 8)"
    by (simp add: bucketOf_def bucket_def)
  show ?thesis using a b c d by blast
qed

theorem analyzePixels_dominant_witness:
  "rgbFrame \<lparr>data = [103, 250, 12, 103, 250, 12, 1, 2, 3, 250, 250, 250, 40, 40, 40],
             channels = Ch3\<rparr>
   \<and> analyzePixels \<lparr>data = [103, 250, 12, 103, 250, 12, 1, 2, 3, 250, 250, 250, 40, 40, 40],
             channels = Ch3\<rparr> = Some \<lparr>rgb_r = Num 96, rgb_g = Num 248, rgb_b = Num 8\<rparr>
   \<and> votes \<lparr>data = [103, 250, 12, 103, 250, 12, 1, 2, 3, 250, 250, 250, 40, 40, 40],
             channels = Ch3\<rparr> \<noteq> []
   \<and> rgbFrame \<lparr>data = [1, 2, 3, 255, 250, 250, 250, 255], channels = Ch4\<rparr>
   \<and> analyzePixels \<lparr>data = [1, 2, 3, 255, 250, 250, 250, 255], channels = Ch4\<rparr> = None"
proof -
  let ?F = "\<lparr>data = [103, 250, 12, 103, 250, 12, 1, 2, 3, 250, 250, 250, 40, 40, 40],
             channels = Ch3\<rparr>"
  let ?G = "\<lparr>data = [1, 2, 3, 255, 250, 250, 250, 255], channels = Ch4\<rparr>"
  have rf: "rgbFrame ?F" by (simp add: rgbFrame_def)
  have rg: "rgbFrame ?G" by (simp add: rgbFrame_def)
  have v: "analyzePixels ?F = Some \<lparr>rgb_r = Num 96, rgb_g = Num 248, rgb_b = Num 8\<rparr>"
    by code_simp
  have ex: "\<forall>p \<in> set (pixels ?G). excluded p"
    by code_simp
  show ?thesis
    using rf rg v ex analyzePixels_dominant[OF rf] analyzePixels_dominant[OF rg] by auto
qed

subsection \<open>Process runner and duration probe\<close>

text \<open>
  C8. \<^verbatim>\<open>runFfmpegCommand\<close> resolves exactly when the process closes with exit code 0. On
  any other exit code it fails with an error whose message holds the code and all of the
  captured stderr text; on a spawn error it fails with that error. The binary is spawned
  once per call: nothing is retried.
\<close>

theorem runFfmpegCommand_outcome:
  "(fst (runFfmpegCommand env args w) = Inr ()
      \<longleftrightarrow> (\<exists>chunks written. ffmpeg_run env args = Closed (Some 0) chunks written))
   \<and> (ffmpeg_run env args = Closed code chunks written \<and> code \<noteq> Some 0
      \<longrightarrow> fst (runFfmpegCommand env args w)
          = Inl (Error (''FFmpeg exited with code '' @ showCode code @ '': '' @ concat chunks)))
   \<and> (ffmpeg_run env args = SpawnError e \<longrightarrow> fst (runFfmpegCommand env args w) = Inl e)
   \<and> trace (snd (runFfmpegCommand env args w)) = trace w @ [SpawnFfmpeg args]"
proof -
  have a: "fst (runFfmpegCommand env args w) = Inr ()
      \<longleftrightarrow> (\<exists>chunks written. ffmpeg_run env args = Closed (Some 0) chunks written)"
    by (cases "ffmpeg_run env args") (auto simp: runFfmpegCommand_def Let_def)
  have b: "ffmpeg_run env args = Closed code chunks written \<and> code \<noteq> Some 0
      \<longrightarrow> fst (runFfmpegCommand env args w)
          = Inl (Error (''FFmpeg exited with code '' @ showCode code @ '': '' @ concat chunks))"
    by (auto simp: runFfmpegCommand_def Let_def)
  have c: "ffmpeg_run env args = SpawnError e \<longrightarrow> fst (runFfmpegCommand env args w) = Inl e"
    by (auto simp: runFfmpegCommand_def Let_def)
  have d: "trace (snd (runFfmpegCommand env args w)) = trace w @ [SpawnFfmpeg args]"
    by (cases "ffmpeg_run env args") (auto simp: runFfmpegCommand_def Let_def log_event_def)
  show ?thesis using a b c d by blast
qed

theorem runFfmpegCommand_outcome_witness:
  "fst (runFfmpegCommand
          (sample_env\<lparr>ffmpeg_run := (\<lambda>a. Closed (Some 1) [''no such '', ''filter''] False)\<rparr>)
          (MaskArgs ''in.mp4'' GREEN_SCREEN_SETTINGS ''out_mask.webm'') sample_world)
     = Inl (Error ''FFmpeg exited with code 1: no such filter'')
   \<and> fst (runFfmpegCommand sample_env
          (MaskArgs ''in.mp4'' GREEN_SCREEN_SETTINGS ''out_mask.webm'') sample_world) = Inr ()
   \<and> fst (runFfmpegCommand
          (sample_env\<lparr>ffmpeg_run := (\<lambda>a. SpawnError (Error ''spawn ffmpeg ENOENT''))\<rparr>)
          (MaskArgs ''in.mp4'' GREEN_SCREEN_SETTINGS ''out_mask.webm'') sample_world)
     = Inl (Error ''spawn ffmpeg ENOENT'')"
proof -
  let ?A = "MaskArgs ''in.mp4'' GREEN_SCREEN_SETTINGS ''out_mask.webm''"
  let ?E1 = "sample_env\<lparr>ffmpeg_run := (\<lambda>a. Closed (Some 1) [''no such '', ''filter''] False)\<rparr>"
  let ?E2 = "sample_env\<lparr>ffmpeg_run := (\<lambda>a. SpawnError (Error ''spawn ffmpeg ENOENT''))\<rparr>"
  have sc: "showCode (Some 1) = ''1''"
    by (simp add: showCode_def showNat.simps digit_def)
  have h1: "ffmpeg_run ?E1 ?A = Closed (Some 1) [''no such '', ''filter''] False
      \<and> Some (1::int) \<noteq> Some 0"
    by simp
  have "fst (runFfmpegCommand ?E1 ?A sample_world)
      = Inl (Error (''FFmpeg exited with code '' @ showCode (Some 1) @ '': ''
          @ concat [''no such '', ''filter'']))"
    using runFfmpegCommand_outcome
      [of ?E1 ?A sample_world "Some 1" "[''no such '', ''filter'']" False] h1
    by blast
  then have r1: "fst (runFfmpegCommand ?E1 ?A sample_world)
      = Inl (Error ''FFmpeg exited with code 1: no such filter'')"
    by (simp add: sc)
  have "ffmpeg_run sample_env ?A = Closed (Some 0) [] True"
    by (simp add: sample_env_def)
  then have h0: "\<exists>chunks written. ffmpeg_run sample_env ?A = Closed (Some 0) chunks written"
    by blast
  have r0: "fst (runFfmpegCommand sample_env ?A sample_world) = Inr ()"
    using runFfmpegCommand_outcome[of sample_env ?A sample_world] h0 by blast
  have h2: "ffmpeg_run ?E2 ?A = SpawnError (Error ''spawn ffmpeg ENOENT'')"
    by simp
  have r2: "fst (runFfmpegCommand ?E2 ?A sample_world) = Inl (Error ''spawn ffmpeg ENOENT'')"
    using runFfmpegCommand_outcome
      [of ?E2 ?A sample_world _ _ _ "Error ''spawn ffmpeg ENOENT''"] h2
    by blast
  show ?thesis using r1 r0 r2 by blast
qed

text \<open>
  C7, as the code has it. \<^verbatim>\<open>getVideoDuration\<close> never throws. It returns 5 when the probe
  cannot be spawned, when it exits with any code but 0, and when its output parses to
  \<^verbatim>\<open>NaN\<close> or to zero; otherwise it returns the parsed number itself. The result is
  positive unless the probe printed a negative number.
\<close>

theorem getVideoDuration_fallback:
  "(\<exists>d. fst (getVideoDuration env p w) = Inr d)
   \<and> (ffprobe_run env p = ProbeError \<longrightarrow> fst (getVideoDuration env p w) = Inr (Finite 5))
   \<and> (ffprobe_run env p = ProbeClosed code chunks \<and> code \<noteq> Some 0
      \<longrightarrow> fst (getVideoDuration env p w) = Inr (Finite 5))
   \<and> (ffprobe_run env p = ProbeClosed (Some 0) chunks
        \<and> (parseFloat env (trim (concat chunks)) = NotANumber
           \<or> parseFloat env (trim (concat chunks)) = Finite 0)
      \<longrightarrow> fst (getVideoDuration env p w) = Inr (Finite 5))
   \<and> (ffprobe_run env p = ProbeClosed (Some 0) chunks
        \<and> parseFloat env (trim (concat chunks)) \<noteq> NotANumber
        \<and> parseFloat env (trim (concat chunks)) \<noteq> Finite 0
      \<longrightarrow> fst (getVideoDuration env p w) = Inr (parseFloat env (trim (concat chunks))))
   \<and> ((\<forall>out. ffprobe_run env p = ProbeClosed (Some 0) out
           \<longrightarrow> \<not> negative (parseFloat env (trim (concat out))))
      \<longrightarrow> (\<exists>d. fst (getVideoDuration env p w) = Inr d \<and> positive d))"
proof -
  have a: "\<exists>d. fst (getVideoDuration env p w) = Inr d"
    by (cases "ffprobe_run env p") (auto simp: getVideoDuration_def Let_def)
  have b: "ffprobe_run env p = ProbeError \<longrightarrow> fst (getVideoDuration env p w) = Inr (Finite 5)"
    by (auto simp: getVideoDuration_def Let_def)
  have c: "ffprobe_run env p = ProbeClosed code chunks \<and> code \<noteq> Some 0
      \<longrightarrow> fst (getVideoDuration env p w) = Inr (Finite 5)"
    by (auto simp: getVideoDuration_def Let_def)
  have d: "ffprobe_run env p = ProbeClosed (Some 0) chunks
        \<and> (parseFloat env (trim (concat chunks)) = NotANumber
           \<or> parseFloat env (trim (concat chunks)) = Finite 0)
      \<longrightarrow> fst (getVideoDuration env p w) = Inr (Finite 5)"
    by (auto simp: getVideoDuration_def Let_def or5_def)
  have e: "ffprobe_run env p = ProbeClosed (Some 0) chunks
        \<and> parseFloat env (trim (concat chunks)) \<noteq> NotANumber
        \<and> parseFloat env (trim (concat chunks)) \<noteq> Finite 0
      \<longrightarrow> fst (getVideoDuration env p w) = Inr (parseFloat env (trim (concat chunks)))"
    by (cases "parseFloat env (trim (concat chunks))")
      (auto simp: getVideoDuration_def Let_def or5_def)
  have f: "(\<forall>out. ffprobe_run env p = ProbeClosed (Some 0) out
           \<longrightarrow> \<not> negative (parseFloat env (trim (concat out))))
      \<longrightarrow> (\<exists>d. fst (getVideoDuration env p w) = Inr d \<and> positive d)"
  proof (cases "ffprobe_run env p")
    case ProbeError
    then show ?thesis by (simp add: getVideoDuration_def Let_def positive_def)
  next
    case (ProbeClosed cd out)
    show ?thesis
    proof (cases "cd = Some 0")
      case False
      then show ?thesis using ProbeClosed
        by (simp add: getVideoDuration_def Let_def positive_def)
    next
      case True
      then show ?thesis using ProbeClosed
        by (cases "parseFloat env (trim (concat out))")
          (auto simp: getVideoDuration_def Let_def positive_def negative_def or5_def)
    qed
  qed
  show ?thesis using a b c d e f by blast
qed

lemma trim_sample: "trim (concat [''10.0'', [CHR 0x0A]]) = ''10.0''"
  by (simp add: trim_def isSpace_def)

theorem getVideoDuration_fallback_witness:
  "fst (getVideoDuration sample_env ''in.mp4'' sample_world) = Inr (Finite 10)
   \<and> positive (Finite 10)
   \<and> fst (getVideoDuration (sample_env\<lparr>ffprobe_run := (\<lambda>p. ProbeError)\<rparr>)
        ''in.mp4'' sample_world) = Inr (Finite 5)
   \<and> fst (getVideoDuration (sample_env\<lparr>ffprobe_run := (\<lambda>p. ProbeClosed (Some 1) [])\<rparr>)
        ''in.mp4'' sample_world) = Inr (Finite 5)
   \<and> fst (getVideoDuration (sample_env\<lparr>ffprobe_run := (\<lambda>p. ProbeClosed (Some 0) [''N/A''])\<rparr>)
        ''in.mp4'' sample_world) = Inr (Finite 5)"
proof -
  have t2: "trim (concat [''N/A'']) = ''N/A''" by (simp add: trim_def isSpace_def)
  show ?thesis
    using getVideoDuration_fallback
        [of sample_env "''in.mp4''" sample_world _ "[''10.0'', [CHR 0x0A]]"]
      getVideoDuration_fallback
        [of "sample_env\<lparr>ffprobe_run := (\<lambda>p. ProbeError)\<rparr>" "''in.mp4''" sample_world]
      getVideoDuration_fallback
        [of "sample_env\<lparr>ffprobe_run := (\<lambda>p. ProbeClosed (Some 1) [])\<rparr>" "''in.mp4''"
          sample_world "Some 1" "[]"]
      getVideoDuration_fallback
        [of "sample_env\<lparr>ffprobe_run := (\<lambda>p. ProbeClosed (Some 0) [''N/A''])\<rparr>" "''in.mp4''"
          sample_world _ "[''N/A'']"]
      trim_sample t2
    by (simp add: sample_env_def positive_def)
qed

text \<open>
  C7 as stated fails: when the probe exits with code 0 and prints \<^verbatim>\<open>-1.5\<close>, the value
  returned is \<open>-1.5\<close>, which is not positive.
\<close>

theorem getVideoDuration_negative:
  "fst (getVideoDuration (sample_env\<lparr>ffprobe_run := (\<lambda>p. ProbeClosed (Some 0) [''-1.5''])\<rparr>)
        ''in.mp4'' sample_world) = Inr (Finite (- 1.5))
   \<and> \<not> positive (Finite (- 1.5))"
  by (simp add: getVideoDuration_def sample_env_def Let_def or5_def positive_def trim_def
      isSpace_def)

subsection \<open>Aggregate colour detection\<close>

lemma tallyHex_snoc: "tallyHex (hs @ [h]) = countHex h (tallyHex hs)"
  by (simp add: tallyHex_def)

lemma tallyHex_map_of:
  "map_of (tallyHex hs) h = (if h \<in> set hs then Some (count_list hs h) else None)"
proof (induction hs rule: rev_induct)
  case Nil
  then show ?case by (simp add: tallyHex_def)
next
  case (snoc x xs)
  show ?case
    using snoc
    by (auto simp: tallyHex_snoc countHex_def map_of_jsmap_set jsmap_get_def)
qed

lemma tallyHex_distinct: "distinct (map fst (tallyHex hs))"
proof (induction hs rule: rev_induct)
  case Nil
  then show ?case by (simp add: tallyHex_def)
next
  case (snoc x xs)
  then show ?case
    by (simp only: tallyHex_snoc countHex_def distinct_jsmap_set)
qed

lemma tallyHex_keys: "set (map fst (tallyHex hs)) = set hs"
proof -
  have "fst ` set (tallyHex hs) = dom (map_of (tallyHex hs))"
    by (simp add: dom_map_of_conv_image_fst)
  also have "\<dots> = set hs"
    by (auto simp: dom_def tallyHex_map_of)
  finally show ?thesis by simp
qed

lemma tallyHex_keys_snoc:
  "map fst (tallyHex (hs @ [h])) =
     (if h \<in> set hs then map fst (tallyHex hs) else map fst (tallyHex hs) @ [h])"
  using tallyHex_keys[of hs]
  by (simp add: tallyHex_snoc countHex_def keys_jsmap_set)

lemma tallyHex_order:
  "map fst (tallyHex hs) = ys @ k # zs \<Longrightarrow>
     \<exists>pre post. hs = pre @ k # post \<and> k \<notin> set pre \<and> set pre \<subseteq> set ys"
proof (induction hs arbitrary: ys zs rule: rev_induct)
  case Nil
  then show ?case by (simp add: tallyHex_def)
next
  case (snoc h hs)
  show ?case
  proof (cases "h \<in> set hs")
    case True
    then have "map fst (tallyHex hs) = ys @ k # zs"
      using snoc.prems by (simp add: tallyHex_keys_snoc)
    from snoc.IH[OF this] obtain pre post where
      "hs = pre @ k # post" "k \<notin> set pre" "set pre \<subseteq> set ys" by blast
    then have "hs @ [h] = pre @ k # (post @ [h])" by simp
    then show ?thesis using \<open>k \<notin> set pre\<close> \<open>set pre \<subseteq> set ys\<close> by blast
  next
    case False
    then have eq: "map fst (tallyHex hs) @ [h] = ys @ k # zs"
      using snoc.prems by (simp add: tallyHex_keys_snoc)
    show ?thesis
    proof (cases zs rule: rev_cases)
      case Nil
      then have "map fst (tallyHex hs) = ys" and "k = h" using eq by simp_all
      then have "set hs \<subseteq> set ys" using tallyHex_keys[of hs] by simp
      then show ?thesis using False \<open>k = h\<close> by blast
    next
      case (snoc zs' z)
      then have "map fst (tallyHex hs) = ys @ k # zs'" using eq by simp
      from snoc.IH[OF this] obtain pre post where
        "hs = pre @ k # post" "k \<notin> set pre" "set pre \<subseteq> set ys" by blast
      then have "hs @ [h] = pre @ k # (post @ [h])" by simp
      then show ?thesis using \<open>k \<notin> set pre\<close> \<open>set pre \<subseteq> set ys\<close> by blast
    qed
  qed
qed

lemma wins_Cons_less: "wins xs cnt h \<Longrightarrow> n \<le> cnt \<Longrightarrow> wins ((hex, cnt) # xs) n h"
proof -
  assume "wins xs cnt h" and n: "n \<le> cnt"
  then obtain ys c zs where xs: "xs = ys @ (h, c) # zs" and c: "cnt < c"
    and b1: "\<forall>e \<in> set ys. snd e < c" and b2: "\<forall>e \<in> set zs. snd e \<le> c"
    unfolding wins_def by blast
  have 1: "(hex, cnt) # xs = ((hex, cnt) # ys) @ (h, c) # zs" using xs by simp
  have 2: "\<forall>e \<in> set ((hex, cnt) # ys). snd e < c" using b1 c by simp
  have 3: "n < c" using n c by simp
  show ?thesis unfolding wins_def
    by (intro exI[of _ "(hex, cnt) # ys"] exI[of _ c] exI[of _ zs] conjI 1 2 3 b2)
qed

lemma wins_Cons_keep: "wins xs n h \<Longrightarrow> cnt \<le> n \<Longrightarrow> wins ((hex, cnt) # xs) n h"
proof -
  assume "wins xs n h" and n: "cnt \<le> n"
  then obtain ys c zs where xs: "xs = ys @ (h, c) # zs" and c: "n < c"
    and b1: "\<forall>e \<in> set ys. snd e < c" and b2: "\<forall>e \<in> set zs. snd e \<le> c"
    unfolding wins_def by blast
  have 1: "(hex, cnt) # xs = ((hex, cnt) # ys) @ (h, c) # zs" using xs by simp
  have 2: "\<forall>e \<in> set ((hex, cnt) # ys). snd e < c" using b1 c n by simp
  show ?thesis unfolding wins_def
    by (intro exI[of _ "(hex, cnt) # ys"] exI[of _ c] exI[of _ zs] conjI 1 2 c b2)
qed

lemma wins_here: "\<forall>e \<in> set xs. snd e \<le> cnt \<Longrightarrow> n < cnt \<Longrightarrow> wins ((hex, cnt) # xs) n hex"
proof -
  assume b2: "\<forall>e \<in> set xs. snd e \<le> cnt" and c: "n < cnt"
  have 1: "(hex, cnt) # xs = [] @ (hex, cnt) # xs" by simp
  have 2: "\<forall>e \<in> set []. snd e < cnt" by simp
  show ?thesis unfolding wins_def
    by (intro exI[of _ "[]"] exI[of _ cnt] exI[of _ xs] conjI 1 2 c b2)
qed

lemma pickBest_char:
  "(pickBest xs b n = b \<and> (\<forall>e \<in> set xs. snd e \<le> n))
   \<or> (\<exists>h. pickBest xs b n = Some h \<and> wins xs n h)"
proof (induction xs arbitrary: b n)
  case Nil
  then show ?case by simp
next
  case (Cons x xs)
  obtain hex cnt where x: "x = (hex, cnt)" by (cases x)
  show ?case
  proof (cases "cnt > n")
    case True
    then have pb: "pickBest (x # xs) b n = pickBest xs (Some hex) cnt" using x by simp
    from Cons.IH[of "Some hex" cnt] show ?thesis
    proof
      assume a: "pickBest xs (Some hex) cnt = Some hex \<and> (\<forall>e \<in> set xs. snd e \<le> cnt)"
      then have "wins (x # xs) n hex" unfolding x using True by (intro wins_here) simp_all
      then show ?thesis using a pb by simp
    next
      assume "\<exists>h. pickBest xs (Some hex) cnt = Some h \<and> wins xs cnt h"
      then obtain h where h: "pickBest xs (Some hex) cnt = Some h" "wins xs cnt h" by blast
      have "wins (x # xs) n h" unfolding x using h(2) True by (intro wins_Cons_less) simp_all
      then show ?thesis using h(1) pb by simp
    qed
  next
    case False
    then have pb: "pickBest (x # xs) b n = pickBest xs b n" using x by simp
    from Cons.IH[of b n] show ?thesis
    proof
      assume a: "pickBest xs b n = b \<and> (\<forall>e \<in> set xs. snd e \<le> n)"
      then have "\<forall>e \<in> set (x # xs). snd e \<le> n" using False x by simp
      then show ?thesis using a pb by simp
    next
      assume "\<exists>h. pickBest xs b n = Some h \<and> wins xs n h"
      then obtain h where h: "pickBest xs b n = Some h" "wins xs n h" by blast
      have "wins (x # xs) n h" unfolding x using h(2) False by (intro wins_Cons_keep) simp_all
      then show ?thesis using h(1) pb by simp
    qed
  qed
qed

lemma find_first: "\<forall>x \<in> set pre. \<not> P x \<Longrightarrow> P h \<Longrightarrow> find P (pre @ h # post) = Some h"
  by (induction pre) simp_all

lemma tallyHex_entry:
  "(k, c) \<in> set (tallyHex hs) \<Longrightarrow> k \<in> set hs \<and> c = count_list hs k"
proof -
  assume a: "(k, c) \<in> set (tallyHex hs)"
  then have "map_of (tallyHex hs) k = Some c" using tallyHex_distinct[of hs] by simp
  then show ?thesis by (simp add: tallyHex_map_of split: if_splits)
qed

lemma count_list_pos: "k \<in> set hs \<Longrightarrow> 0 < count_list hs k"
  by (induction hs) auto

lemma tallyHex_nonempty:
  assumes "\<forall>e \<in> set (tallyHex hs). snd e \<le> 0"
  shows "hs = []"
proof (rule ccontr)
  assume "hs \<noteq> []"
  then obtain k where k: "k \<in> set hs" by (cases hs) auto
  then have "map_of (tallyHex hs) k = Some (count_list hs k)" by (simp add: tallyHex_map_of)
  then have "(k, count_list hs k) \<in> set (tallyHex hs)" by (rule map_of_SomeD)
  from bspec[OF assms this] have "snd (k, count_list hs k) \<le> 0" .
  then show False using count_list_pos[OF k] by simp
qed

lemma wins_majority:
  assumes w: "wins (tallyHex hs) 0 h"
  shows "majority hs = Some h"
proof -
  let ?P = "\<lambda>h. \<forall>h' \<in> set hs. count_list hs h' \<le> count_list hs h"
  from w obtain ys c zs where t: "tallyHex hs = ys @ (h, c) # zs"
    and b1: "\<forall>e \<in> set ys. snd e < c" and b2: "\<forall>e \<in> set zs. snd e \<le> c"
    unfolding wins_def by blast
  have hc: "c = count_list hs h"
    using tallyHex_entry[of h c hs] t by simp
  have ent: "(k, count_list hs k) \<in> set (tallyHex hs)" if "k \<in> set hs" for k
    using that map_of_SomeD[of "tallyHex hs" k "count_list hs k"] by (simp add: tallyHex_map_of)
  have P: "?P h"
  proof
    fix k assume "k \<in> set hs"
    from ent[OF this] have "(k, count_list hs k) \<in> set ys \<or> (k, count_list hs k) = (h, c)
        \<or> (k, count_list hs k) \<in> set zs"
      by (auto simp: t)
    then show "count_list hs k \<le> count_list hs h"
    proof (elim disjE)
      assume "(k, count_list hs k) \<in> set ys"
      from bspec[OF b1 this] show ?thesis using hc by simp
    next
      assume "(k, count_list hs k) = (h, c)"
      then show ?thesis using hc by simp
    next
      assume "(k, count_list hs k) \<in> set zs"
      from bspec[OF b2 this] show ?thesis using hc by simp
    qed
  qed
  have "map fst (tallyHex hs) = map fst ys @ h # map fst zs" by (simp add: t)
  from tallyHex_order[OF this] obtain pre post where
    hs: "hs = pre @ h # post" and pre: "set pre \<subseteq> set (map fst ys)" by blast
  have nP: "\<forall>x \<in> set pre. \<not> ?P x"
  proof
    fix x assume "x \<in> set pre"
    then have "x \<in> fst ` set ys" using pre by auto
    then obtain cx where cx: "(x, cx) \<in> set ys" by force
    then have "(x, cx) \<in> set (tallyHex hs)" by (simp add: t)
    then have "cx = count_list hs x" using tallyHex_entry by blast
    moreover from bspec[OF b1 cx] have "cx < c" by simp
    ultimately have lt: "count_list hs x < count_list hs h" using hc by simp
    have "h \<in> set hs" using hs by simp
    show "\<not> ?P x"
    proof
      assume "?P x"
      from bspec[OF this \<open>h \<in> set hs\<close>] show False using lt by simp
    qed
  qed
  have "find ?P (pre @ h # post) = Some h"
    using nP P by (rule find_first)
  then show ?thesis using hs by (simp add: majority_def)
qed

lemma pickBest_majority: "pickBest (tallyHex hs) None 0 = majority hs"
proof -
  from pickBest_char[of "tallyHex hs" None 0] show ?thesis
  proof
    assume a: "pickBest (tallyHex hs) None 0 = None \<and> (\<forall>e \<in> set (tallyHex hs). snd e \<le> 0)"
    then have "hs = []" using tallyHex_nonempty by blast
    then show ?thesis using a by (simp add: majority_def)
  next
    assume "\<exists>h. pickBest (tallyHex hs) None 0 = Some h \<and> wins (tallyHex hs) 0 h"
    then obtain h where "pickBest (tallyHex hs) None 0 = Some h" "wins (tallyHex hs) 0 h"
      by blast
    then show ?thesis using wins_majority by simp
  qed
qed


lemma majority_mem: "majority hs = Some h \<Longrightarrow> h \<in> set hs"
  unfolding majority_def by (auto simp: find_Some_iff)

lemma ffmpegJobs_append: "ffmpegJobs (xs @ ys) = ffmpegJobs xs @ ffmpegJobs ys"
  by (induction xs rule: ffmpegJobs.induct) simp_all

lemma getVideoDuration_world:
  "snd (getVideoDuration env inp w) = log_event (SpawnFfprobe inp) w"
  by (cases "ffprobe_run env inp") (simp_all add: getVideoDuration_def Let_def)

lemma getVideoDuration_indep:
  "fst (getVideoDuration env inp w) = fst (getVideoDuration env inp w')"
  by (cases "ffprobe_run env inp") (simp_all add: getVideoDuration_def Let_def)

lemma runFfmpegCommand_world:
  "uuids (snd (runFfmpegCommand env a w)) = uuids w
   \<and> trace (snd (runFfmpegCommand env a w)) = trace w @ [SpawnFfmpeg a]
   \<and> files w \<subseteq> files (snd (runFfmpegCommand env a w))
   \<and> files (snd (runFfmpegCommand env a w)) \<subseteq> insert (outputFile a) (files w)"
  by (cases "ffmpeg_run env a") (auto simp: runFfmpegCommand_def Let_def log_event_def)

lemma extractFrame_Inr:
  assumes "extractFrame env inp p w = (Inr fp, w1)"
    and d: "fst (getVideoDuration env inp w0) = Inr d"
  shows "fp = framePathOf env (uuids w) \<and> uuids w1 = Suc (uuids w)
    \<and> trace w1 = trace w @ [SpawnFfprobe inp, SpawnFfmpeg (FrameArgs (toFixed2 env (timestampAt env d p)) inp fp)]"
proof -
  let ?wu = "w\<lparr>uuids := Suc (uuids w)\<rparr>"
  have gd: "getVideoDuration env inp ?wu = (Inr d, log_event (SpawnFfprobe inp) ?wu)"
    using d getVideoDuration_indep[of env inp ?wu w0] getVideoDuration_world[of env inp ?wu]
    by (simp add: prod_eq_iff)
  let ?a = "FrameArgs (toFixed2 env (timestampAt env d p)) inp (framePathOf env (uuids w))"
  let ?w2 = "log_event (SpawnFfprobe inp) ?wu"
  have "extractFrame env inp p w =
      (case getVideoDuration env inp ?wu of
         (Inl e, w2) \<Rightarrow> (Inl e, w2)
       | (Inr duration, w2) \<Rightarrow>
           (case runFfmpegCommand env
                   (FrameArgs (toFixed2 env (timestampAt env duration p)) inp (framePathOf env (uuids w))) w2 of
              (Inl e, w3) \<Rightarrow> (Inl e, w3)
            | (Inr _, w3) \<Rightarrow> (Inr (framePathOf env (uuids w)), w3)))"
    unfolding extractFrame_def uuidv4_def Let_def framePathOf_def prod.case by (rule refl)
  then have ex: "extractFrame env inp p w =
      (case runFfmpegCommand env ?a ?w2 of (Inl e, w3) \<Rightarrow> (Inl e, w3)
       | (Inr _, w3) \<Rightarrow> (Inr (framePathOf env (uuids w)), w3))"
    unfolding gd prod.case sum.case .
  obtain r w3 where rf: "runFfmpegCommand env ?a ?w2 = (r, w3)" by (cases "runFfmpegCommand env ?a ?w2")
  have w3: "uuids w3 = Suc (uuids w) \<and> trace w3 = trace w @ [SpawnFfprobe inp, SpawnFfmpeg ?a]"
    using runFfmpegCommand_world[of env ?a ?w2] rf by (simp add: log_event_def)
  show ?thesis
    using assms(1) w3 unfolding ex rf by (cases r) auto
qed


lemma analyzeFrameColors_Inr:
  "analyzeFrameColors env fp ct w = Inr col \<Longrightarrow>
     fp \<in> files w \<and> (\<exists>f. sharp_raw env fp = Inr f \<and> col = analyzePixels f)"
  by (auto simp: analyzeFrameColors_def split: if_splits sum.splits)

lemma hexVote_Inr:
  "sharp_raw env fp = Inr f \<Longrightarrow>
     hexVote env fp = (case analyzePixels f of None \<Rightarrow> [] | Some c \<Rightarrow> [rgbToHex c])"
  by (simp add: hexVote_def)

lemma sampleFrames_Inr:
  assumes d: "fst (getVideoDuration env inp w0) = Inr d"
  shows "sampleFrames env inp ct ps fps cc w = (Inr cc', fps', w') \<Longrightarrow>
     fps' = fps @ map (framePathOf env) [uuids w..<uuids w + length ps]
     \<and> cc' = foldl (\<lambda>m h. countHex h m) cc
            (hexVotes env (map (framePathOf env) [uuids w..<uuids w + length ps]))
     \<and> ffmpegJobs (trace w') = ffmpegJobs (trace w)
          @ map (\<lambda>(k, p). FrameArgs (toFixed2 env (timestampAt env d p)) inp (framePathOf env k))
              (zip [uuids w..<uuids w + length ps] ps)"
proof (induction ps arbitrary: fps cc w)
  case Nil
  then show ?case by (simp add: hexVotes_def)
next
  case (Cons p ps)
  obtain r1 w1 where ef: "extractFrame env inp p w = (r1, w1)"
    by (cases "extractFrame env inp p w")
  from Cons.prems ef obtain fp where r1: "r1 = Inr fp"
    by (cases r1) simp_all
  note e = extractFrame_Inr[OF ef[unfolded r1] d]
  from Cons.prems ef r1 obtain col where an: "analyzeFrameColors env fp ct w1 = Inr col"
    by (cases "analyzeFrameColors env fp ct w1") (simp_all add: Let_def)
  from analyzeFrameColors_Inr[OF an] obtain f where f: "sharp_raw env fp = Inr f"
    and col: "col = analyzePixels f" by blast
  let ?cc1 = "(case col of None \<Rightarrow> cc | Some c \<Rightarrow> countHex (rgbToHex c) cc)"
  have rec: "sampleFrames env inp ct ps (fps @ [fp]) ?cc1 w1 = (Inr cc', fps', w')"
    using Cons.prems ef r1 an by (simp add: Let_def)
  note ih = Cons.IH[OF rec]
  have "uuids w < uuids w + length (p # ps)" by simp
  from upt_conv_Cons[OF this]
  have up: "[uuids w..<uuids w + length (p # ps)] = uuids w # [uuids w1..<uuids w1 + length ps]"
    using e by (simp del: upt_Suc)
  have fpk: "fp = framePathOf env (uuids w)" using e by simp
  have cc1: "?cc1 = foldl (\<lambda>m h. countHex h m) cc (hexVote env fp)"
    by (cases "analyzePixels f") (simp_all add: hexVote_Inr[OF f] col)
  have jobs1: "ffmpegJobs (trace w1) = ffmpegJobs (trace w) @ [FrameArgs (toFixed2 env (timestampAt env d p)) inp fp]"
    using e by (simp add: ffmpegJobs_append)
  show ?case
    unfolding up using ih by (simp add: fpk[symmetric] cc1 hexVotes_def jobs1)
qed

lemma unlink_world:
  "ffmpegJobs (trace (snd (unlink env p w))) = ffmpegJobs (trace w)
   \<and> files (snd (unlink env p w)) \<subseteq> files w
   \<and> uuids (snd (unlink env p w)) = uuids w"
  by (auto simp: unlink_def Let_def log_event_def ffmpegJobs_append split: option.splits)

lemma cleanupFrames_jobs: "ffmpegJobs (trace (cleanupFrames env ps w)) = ffmpegJobs (trace w)"
proof (induction ps arbitrary: w)
  case Nil
  then show ?case by simp
next
  case (Cons p ps)
  obtain r w1 where u: "unlink env p w = (r, w1)" by (cases "unlink env p w")
  then show ?case using Cons.IH[of w1] unlink_world[of env p w] by simp
qed

lemma findDominantChromaColor_Inr:
  assumes run: "findDominantChromaColor env inp ct w = (Inr r, w')"
    and d: "fst (getVideoDuration env inp w0) = Inr d"
  shows "r = majority (hexVotes env (threeFrames env (uuids w)))
    \<and> ffmpegJobs (trace w') = ffmpegJobs (trace w)
          @ [FrameArgs (toFixed2 env (timestampAt env d 5)) inp (framePathOf env (uuids w)),
             FrameArgs (toFixed2 env (timestampAt env d 25)) inp (framePathOf env (Suc (uuids w))),
             FrameArgs (toFixed2 env (timestampAt env d 50)) inp (framePathOf env (Suc (Suc (uuids w))))]"
proof -
  obtain r1 fps w1 where sf: "sampleFrames env inp ct [5, 25, 50] [] [] w = (r1, fps, w1)"
    by (cases "sampleFrames env inp ct [5, 25, 50] [] [] w")
  from run sf obtain cc where r1: "r1 = Inr cc"
    by (cases r1) (simp_all add: findDominantChromaColor_def)
  note s = sampleFrames_Inr[OF d sf[unfolded r1]]
  have r: "r = pickBest cc None 0" and w': "w' = cleanupFrames env fps w1"
    using run sf r1 by (simp_all add: findDominantChromaColor_def)
  have cc: "cc = tallyHex (hexVotes env (threeFrames env (uuids w)))"
    using s by (simp add: tallyHex_def threeFrames_def)
  have "ffmpegJobs (trace w') = ffmpegJobs (trace w1)"
    by (simp add: w' cleanupFrames_jobs)
  then have j: "ffmpegJobs (trace w') = ffmpegJobs (trace w)
          @ [FrameArgs (toFixed2 env (timestampAt env d 5)) inp (framePathOf env (uuids w)),
             FrameArgs (toFixed2 env (timestampAt env d 25)) inp (framePathOf env (Suc (uuids w))),
             FrameArgs (toFixed2 env (timestampAt env d 50)) inp (framePathOf env (Suc (Suc (uuids w))))]"
    using s by simp
  have m: "r = majority (hexVotes env (threeFrames env (uuids w)))"
    unfolding r cc by (rule pickBest_majority)
  show ?thesis using j m by (rule conjI[rotated])
qed

lemma hexValue_all: "\<forall>d \<in> set [0..<16]. hexValue (upperHexDigit d) = Some d"
  by code_simp

lemma hexValue_upper: "d < 16 \<Longrightarrow> hexValue (upperHexDigit d) = Some d"
  using hexValue_all by simp

lemma hexByte_hex2: "n < 256 \<Longrightarrow> hexByte (hex2 n) = Some n"
proof -
  assume n: "n < 256"
  then have "n div 16 < 16" by simp
  then show ?thesis
    using hexValue_upper[of "n div 16"] hexValue_upper[of "n mod 16"]
    by (simp add: hexByte_def hex2_def)
qed

lemma hexChannels_hex2:
  "x < 256 \<Longrightarrow> y < 256 \<Longrightarrow> z < 256 \<Longrightarrow> hexChannels (hex2 x @ hex2 y @ hex2 z) = Some (x, y, z)"
proof -
  assume b: "x < 256" "y < 256" "z < 256"
  have l: "length (hex2 x) = 2" "length (hex2 y) = 2" "length (hex2 z) = 2"
    by (simp_all add: hex2_def)
  have t1: "take 2 (hex2 x @ hex2 y @ hex2 z) = hex2 x" using l by simp
  have t2: "take 2 (drop 2 (hex2 x @ hex2 y @ hex2 z)) = hex2 y" using l by simp
  have t3: "drop 4 (hex2 x @ hex2 y @ hex2 z) = hex2 z" using l by simp
  have len: "length (hex2 x @ hex2 y @ hex2 z) = 6" using l by simp
  show ?thesis
    unfolding hexChannels_def t1 t2 t3 len
    by (simp add: hexByte_hex2 b)
qed

lemma uint_byte: "0 \<le> uint (b :: byte) \<and> uint b < 256"
  using uint_lt2p[of b] by simp

lemma bucket_byte:
  "0 \<le> v \<Longrightarrow> v < 256 \<Longrightarrow> 0 \<le> bucket v \<and> bucket v \<le> 248 \<and> 8 dvd bucket v"
  unfolding bucket_def by (auto simp: pos_imp_zdiv_nonneg_iff) 

lemma votes_quantized: "v \<in> set (votes f) \<Longrightarrow> quantized v"
proof -
  assume "v \<in> set (votes f)"
  then obtain k where v: "v = bucketOf (pixelAt f k)"
    by (auto simp: votes_def pixels_def)
  show ?thesis
    unfolding v pixelAt_def Let_def bucketOf_def quantized_def prod.case
    using bucket_byte uint_byte by blast
qed

lemma analyzePixels_quantized:
  assumes "rgbFrame f" and "analyzePixels f = Some c"
  shows "\<exists>v. quantized v \<and> c = rgbOf v"
proof -
  from tallied_mostFrequent[OF scan_tallied[OF assms(1)]] assms(2)
  obtain v where "v \<in> set (votes f)" "c = rgbOf v"
    unfolding analyzePixels_def by blast
  then show ?thesis using votes_quantized by blast
qed

lemma dvd_nat8: "0 \<le> a \<Longrightarrow> (8::int) dvd a \<Longrightarrow> (8::nat) dvd nat a"
  by presburger

lemma clamp255_id: "0 \<le> x \<Longrightarrow> x \<le> 248 \<Longrightarrow> clamp255 x = nat x"
  by (simp add: clamp255_def)

lemma rgbToHex_quantized:
  assumes "quantized v"
  shows "\<exists>x y z. rgbToHex (rgbOf v) = hex2 x @ hex2 y @ hex2 z
     \<and> hexChannels (rgbToHex (rgbOf v)) = Some (x, y, z)
     \<and> 8 dvd x \<and> 8 dvd y \<and> 8 dvd z \<and> x \<le> 248 \<and> y \<le> 248 \<and> z \<le> 248"
proof -
  obtain a b c where v: "v = (a, b, c)" by (cases v)
  from assms have q: "0 \<le> a" "a \<le> 248" "8 dvd a" "0 \<le> b" "b \<le> 248" "8 dvd b"
    "0 \<le> c" "c \<le> 248" "8 dvd c"
    by (simp_all add: quantized_def v)
  have e: "rgbToHex (rgbOf v) = hex2 (nat a) @ hex2 (nat b) @ hex2 (nat c)"
    using q by (simp add: v rgbOf_def rgbToHex_Num clamp255_id)
  have d: "8 dvd nat a" "8 dvd nat b" "8 dvd nat c"
    using q by (simp_all add: dvd_nat8)
  have le: "nat a \<le> 248" "nat b \<le> 248" "nat c \<le> 248" using q by simp_all
  then have lt: "nat a < 256" "nat b < 256" "nat c < 256" by simp_all
  have h: "hexChannels (rgbToHex (rgbOf v)) = Some (nat a, nat b, nat c)"
    unfolding e using lt by (rule hexChannels_hex2)
  show ?thesis using e h d le by blast
qed

lemma hexVotes_mem:
  "h \<in> set (hexVotes env ps) \<Longrightarrow>
     \<exists>p f c. sharp_raw env p = Inr f \<and> analyzePixels f = Some c \<and> h = rgbToHex c"
proof -
  assume "h \<in> set (hexVotes env ps)"
  then obtain p where hp: "h \<in> set (hexVote env p)" by (auto simp: hexVotes_def)
  show ?thesis
  proof (cases "sharp_raw env p")
    case (Inl e)
    then show ?thesis using hp by (simp add: hexVote_def)
  next
    case (Inr f)
    show ?thesis
    proof (cases "analyzePixels f")
      case None
      then show ?thesis using hp Inr by (simp add: hexVote_def)
    next
      case (Some c)
      then have "h = rgbToHex c" using hp Inr by (simp add: hexVote_def)
      then show ?thesis using Inr Some by blast
    qed
  qed
qed

lemma hexVotes_quantized:
  assumes frames: "\<forall>p f. sharp_raw env p = Inr f \<longrightarrow> rgbFrame f"
    and h: "h \<in> set (hexVotes env ps)"
  shows "\<exists>x y z. h = hex2 x @ hex2 y @ hex2 z \<and> hexChannels h = Some (x, y, z)
     \<and> 8 dvd x \<and> 8 dvd y \<and> 8 dvd z \<and> x \<le> 248 \<and> y \<le> 248 \<and> z \<le> 248"
proof -
  from hexVotes_mem[OF h] obtain p f c where
    f: "sharp_raw env p = Inr f" and c: "analyzePixels f = Some c" and hc: "h = rgbToHex c"
    by blast
  have "rgbFrame f" using frames f by blast
  from analyzePixels_quantized[OF this c] obtain v where "quantized v" "c = rgbOf v" by blast
  then show ?thesis using rgbToHex_quantized[of v] hc by simp
qed


lemma getVideoDuration_Inr: "\<exists>d. fst (getVideoDuration env p w) = Inr d"
  by (cases "ffprobe_run env p") (auto simp: getVideoDuration_def Let_def)




text \<open>
  C10. When the decoded frames are RGB or RGBA and \<^verbatim>\<open>findDominantChromaColor\<close> returns
  a hex colour, each of the three channel values it encodes is a multiple of 8 and at most
  248; so the colour is neither \<^verbatim>\<open>00FF00\<close> nor \<^verbatim>\<open>0000FF\<close>.
\<close>

theorem detected_color_quantized:
  assumes frames: "\<forall>p f. sharp_raw env p = Inr f \<longrightarrow> rgbFrame f"
    and run: "fst (findDominantChromaColor env inp ct w) = Inr (Some h)"
  shows "(\<exists>x y z. hexChannels h = Some (x, y, z) \<and> h = hex2 x @ hex2 y @ hex2 z
            \<and> 8 dvd x \<and> 8 dvd y \<and> 8 dvd z \<and> x \<le> 248 \<and> y \<le> 248 \<and> z \<le> 248)
    \<and> h \<noteq> ''00FF00'' \<and> h \<noteq> ''0000FF''
    \<and> hexChannels ''00FF00'' = Some (0, 255, 0) \<and> hexChannels ''0000FF'' = Some (0, 0, 255)"
proof -
  let ?run = "findDominantChromaColor env inp ct w"
  have run': "?run = (Inr (Some h), snd ?run)" using run by (simp add: prod_eq_iff)
  obtain d where d: "fst (getVideoDuration env inp w) = Inr d"
    using getVideoDuration_Inr by blast
  from findDominantChromaColor_Inr[OF run' d]
  have "majority (hexVotes env (threeFrames env (uuids w))) = Some h" by simp
  then have "h \<in> set (hexVotes env (threeFrames env (uuids w)))" by (rule majority_mem)
  from hexVotes_quantized[OF frames this] obtain x y z where
    q: "h = hex2 x @ hex2 y @ hex2 z" "hexChannels h = Some (x, y, z)"
      "8 dvd x" "8 dvd y" "8 dvd z" "x \<le> 248" "y \<le> 248" "z \<le> 248"
    by blast
  have g: "hexChannels ''00FF00'' = Some (0, 255, 0)" by code_simp
  have b: "hexChannels ''0000FF'' = Some (0, 0, 255)" by code_simp
  have ng: "h \<noteq> ''00FF00''"
  proof
    assume "h = ''00FF00''"
    then have "y = 255" using q(2) g by simp
    then show False using q(7) by simp
  qed
  have nb: "h \<noteq> ''0000FF''"
  proof
    assume "h = ''0000FF''"
    then have "z = 255" using q(2) b by simp
    then show False using q(8) by simp
  qed
  show ?thesis using q ng nb g b by blast
qed

theorem detected_color_quantized_witness:
  "fst (findDominantChromaColor sample_env ''/uploads/in.mp4'' green sample_world)
     = Inr (Some ''00F800'')
   \<and> hexChannels ''00F800'' = Some (0, 248, 0)
   \<and> ''00F800'' \<noteq> ''00FF00''"
proof -
  have fr: "\<forall>p f. sharp_raw sample_env p = Inr f \<longrightarrow> rgbFrame f"
    by (simp add: sample_env_def rgbFrame_def)
  have r: "fst (findDominantChromaColor sample_env ''/uploads/in.mp4'' green sample_world)
     = Inr (Some ''00F800'')" by code_simp
  have c: "hexChannels ''00F800'' = Some (0, 248, 0)" by code_simp
  from detected_color_quantized[OF fr r] have "''00F800'' \<noteq> ''00FF00''" by blast
  then show ?thesis using r c by blast
qed

subsection \<open>Cleanup of temporary files\<close>

lemma unlink_files:
  "files (snd (unlink env p w)) =
     (if p \<in> files w \<and> unlink_error env p = None then files w - {p} else files w)"
  by (auto simp: unlink_def Let_def log_event_def split: option.splits)

lemma unlink_trace: "trace (snd (unlink env p w)) = trace w @ [Unlink p]"
  by (auto simp: unlink_def Let_def log_event_def split: option.splits)

lemma cleanupFrames_files_subset: "files (cleanupFrames env ps w) \<subseteq> files w"
proof (induction ps arbitrary: w)
  case Nil
  then show ?case by simp
next
  case (Cons p ps)
  obtain r w1 where u: "unlink env p w = (r, w1)" by (cases "unlink env p w")
  have "files w1 \<subseteq> files w" using unlink_files[of env p w] u by (auto split: if_splits)
  then show ?case using Cons.IH[of w1] u by auto
qed

text \<open>
  The \<^verbatim>\<open>finally\<close> block of the detection: every frame path that was pushed is either
  gone afterwards or its unlink failed, and each got its unlink call.
\<close>

lemma cleanupFrames_removes:
  "p \<in> set ps \<Longrightarrow> p \<notin> files (cleanupFrames env ps w) \<or> unlink_error env p \<noteq> None"
proof (induction ps arbitrary: w)
  case Nil
  then show ?case by simp
next
  case (Cons q ps)
  obtain r w1 where u: "unlink env q w = (r, w1)" by (cases "unlink env q w")
  then have w1: "w1 = snd (unlink env q w)" by simp
  show ?case
  proof (cases "p = q")
    case True
    have "p \<notin> files w1 \<or> unlink_error env p \<noteq> None"
      unfolding w1 True by (simp add: unlink_files)
    then show ?thesis
      using cleanupFrames_files_subset[of env ps w1] u by auto
  next
    case False
    then have "p \<in> set ps" using Cons.prems by simp
    from Cons.IH[OF this, of w1] show ?thesis using u by simp
  qed
qed

lemma cleanupFrames_trace: "trace (cleanupFrames env ps w) = trace w @ map Unlink ps"
proof (induction ps arbitrary: w)
  case Nil
  then show ?case by simp
next
  case (Cons q ps)
  obtain r w1 where u: "unlink env q w = (r, w1)" by (cases "unlink env q w")
  then have "trace w1 = trace w @ [Unlink q]" using unlink_trace[of env q w] by simp
  then show ?case using Cons.IH[of w1] u by simp
qed

text \<open>
  The \<^verbatim>\<open>finally\<close> block of \<^verbatim>\<open>processVideo\<close>: the outcome is that of the \<^verbatim>\<open>try\<close>
  block whatever the unlink calls do, and the uploaded file is gone afterwards unless its
  unlink failed.
\<close>

lemma processVideo_outcome:
  "fst (processVideo env dto uploadedFile baseUrl w) =
     fst (processVideo_try env dto uploadedFile baseUrl (uuid env (uuids w))
            (w\<lparr>uuids := Suc (uuids w)\<rparr>))"
  by (simp add: processVideo_def uuidv4_def Let_def split: prod.splits)

lemma processVideo_upload_removed:
  assumes "file_path u \<noteq> []"
  shows "file_path u \<notin> files (snd (processVideo env dto (Some u) baseUrl w))
     \<or> unlink_error env (file_path u) \<noteq> None"
  using assms
  by (simp add: processVideo_def uuidv4_def Let_def unlink_files split: prod.splits)

text \<open>
  C6 fails on the code. A request with an uploaded file asks for colour detection; the
  \<^verbatim>\<open>ffmpeg\<close> run for the second frame writes its frame file and exits with code 1.
  \<^verbatim>\<open>processVideo\<close> fails with that error, the first frame and the uploaded file are
  unlinked, and the second frame file, whose path was never pushed, is still there when
  the call returns.
\<close>

theorem frame_file_left_behind:
  "fst (processVideo failing_env sample_dto (Some sample_upload) None sample_world)
     = Inl (Error ''FFmpeg exited with code 1: Conversion failed!'')
   \<and> files sample_world = {''/uploads/in.mp4''}
   \<and> files (snd (processVideo failing_env sample_dto (Some sample_upload) None sample_world))
     = {''/tmp/frame_2.png''}
   \<and> trace (snd (processVideo failing_env sample_dto (Some sample_upload) None sample_world))
     = [SpawnFfprobe ''/uploads/in.mp4'',
        SpawnFfmpeg (FrameArgs ''0.50'' ''/uploads/in.mp4'' ''/tmp/frame_1.png''),
        SpawnFfprobe ''/uploads/in.mp4'',
        SpawnFfmpeg (FrameArgs ''2.50'' ''/uploads/in.mp4'' ''/tmp/frame_2.png''),
        Unlink ''/tmp/frame_1.png'', Unlink ''/uploads/in.mp4'']"
  by code_simp

subsection \<open>The settings that reach the encoder\<close>

lemma detectColor_Inr:
  "detectColor env dto inp w = (Inr dc, w') \<Longrightarrow> \<exists>found. dc = detectedColor_of dto found"
proof (cases "autoDetectColor dto = Some True")
  case False
  assume "detectColor env dto inp w = (Inr dc, w')"
  then have "dc = None" using False by (simp add: detectColor_def)
  then show ?thesis using False by (simp add: detectedColor_of_def)
next
  case True
  assume a: "detectColor env dto inp w = (Inr dc, w')"
  obtain r w1 where f: "findDominantChromaColor env inp (colorType dto) w = (r, w1)"
    by (cases "findDominantChromaColor env inp (colorType dto) w")
  from a f True obtain found where "r = Inr found"
    by (cases r) (simp_all add: detectColor_def)
  then have "dc = detectedColor_of dto found"
    using a f True by (simp add: detectColor_def detectedColor_of_def)
  then show ?thesis by blast
qed

lemma processChromaKey_jobs:
  assumes "processChromaKey env opts w = (Inr res, w')"
  shows "MaskArgs (o_inputPath opts) (getSettings (o_colorType opts) (o_maskSettings opts))
           (maskPath res) \<in> set (ffmpegJobs (trace w'))
    \<and> ResultArgs (o_inputPath opts) (getSettings (o_colorType opts) (o_resultSettings opts))
           (resultPath res) \<in> set (ffmpegJobs (trace w'))"
proof -
  obtain sid w1 where s: "(case o_sessionId opts of Some s \<Rightarrow> (s, w) | None \<Rightarrow> uuidv4 env w) = (sid, w1)"
    by (cases "(case o_sessionId opts of Some s \<Rightarrow> (s, w) | None \<Rightarrow> uuidv4 env w)")
  let ?mo = "path_join env (o_outputDir opts) (sid @ ''_mask.webm'')"
  let ?ro = "path_join env (o_outputDir opts) (sid @ ''_result.webm'')"
  let ?ma = "MaskArgs (o_inputPath opts) (getSettings (o_colorType opts) (o_maskSettings opts)) ?mo"
  let ?ra = "ResultArgs (o_inputPath opts) (getSettings (o_colorType opts) (o_resultSettings opts)) ?ro"
  obtain r2 w2 where m: "mkdir env (o_outputDir opts) w1 = (r2, w2)"
    by (cases "mkdir env (o_outputDir opts) w1")
  obtain r3 w3 where a3: "runFfmpegCommand env ?ma w2 = (r3, w3)"
    by (cases "runFfmpegCommand env ?ma w2")
  obtain r4 w4 where a4: "runFfmpegCommand env ?ra w3 = (r4, w4)"
    by (cases "runFfmpegCommand env ?ra w3")
  have pk: "processChromaKey env opts w =
      (case r2 of Inl e \<Rightarrow> (Inl e, w2)
       | Inr _ \<Rightarrow> (case r3 of Inl e \<Rightarrow> (Inl e, w3)
           | Inr _ \<Rightarrow> (case r4 of Inl e \<Rightarrow> (Inl e, w4)
               | Inr _ \<Rightarrow> (Inr \<lparr>maskPath = ?mo, resultPath = ?ro\<rparr>, w4))))"
    unfolding processChromaKey_def Let_def s prod.case m a3 a4
    by (simp split: sum.splits)
  from assms have res: "res = \<lparr>maskPath = ?mo, resultPath = ?ro\<rparr>" and w': "w' = w4"
    unfolding pk by (auto split: sum.splits)
  have t3: "trace w3 = trace w2 @ [SpawnFfmpeg ?ma]"
    using runFfmpegCommand_world[of env ?ma w2] a3 by simp
  have t4: "trace w4 = trace w3 @ [SpawnFfmpeg ?ra]"
    using runFfmpegCommand_world[of env ?ra w3] a4 by simp
  show ?thesis
    unfolding w' res by (simp add: t4 t3 ffmpegJobs_append)
qed

lemma processVideo_try_settings:
  assumes "processVideo_try env dto up baseUrl sid w = (Inr resp, t, w')"
  shows "\<exists>found inp mo ro.
     MaskArgs inp (maskChromaSettings dto (detectedColor_of dto found)) mo
       \<in> set (ffmpegJobs (trace w'))
     \<and> ResultArgs inp (resultChromaSettings dto (detectedColor_of dto found)) ro
       \<in> set (ffmpegJobs (trace w'))"
proof -
  obtain r1 t1 w1 where ri: "resolveInput env dto up sid w = (r1, t1, w1)"
    by (cases "resolveInput env dto up sid w")
  from assms ri obtain inp where r1: "r1 = Inr inp"
    by (cases r1) (simp_all add: processVideo_try_def)
  obtain r2 w2 where dc: "detectColor env dto inp w1 = (r2, w2)"
    by (cases "detectColor env dto inp w1")
  from assms ri r1 dc obtain d where r2: "r2 = Inr d"
    by (cases r2) (simp_all add: processVideo_try_def)
  from detectColor_Inr[OF dc[unfolded r2]] obtain found where
    d: "d = detectedColor_of dto found" by blast
  let ?o = "\<lparr>o_inputPath = inp, o_outputDir = outputDir env, o_colorType = colorType dto,
      o_resultSettings = Some (build_resultSettings dto d),
      o_maskSettings = Some (build_maskSettings dto d), o_sessionId = Some sid\<rparr>"
  obtain r3 w3 where pk: "processChromaKey env ?o w2 = (r3, w3)"
    by (cases "processChromaKey env ?o w2")
  from assms ri r1 dc r2 pk obtain res where r3: "r3 = Inr res" and w': "w' = w3"
    by (cases r3) (simp_all add: processVideo_try_def Let_def)
  from processChromaKey_jobs[OF pk[unfolded r3]]
  have "MaskArgs inp (maskChromaSettings dto d) (maskPath res) \<in> set (ffmpegJobs (trace w3))
    \<and> ResultArgs inp (resultChromaSettings dto d) (resultPath res) \<in> set (ffmpegJobs (trace w3))"
    by (simp add: maskChromaSettings_def resultChromaSettings_def)
  then show ?thesis unfolding w' d by blast
qed

subsection \<open>Colour precedence on the request pipeline\<close>

lemma toHex_nonempty: "toHex v \<noteq> []"
  by (auto simp: toHex_def padStart_def)

lemma rgbToHex_nonempty: "rgbToHex c \<noteq> []"
  using toHex_nonempty[of "rgb_r c"] by (simp add: rgbToHex_def toUpperCase_def)

lemma detected_nonempty:
  assumes "fst (findDominantChromaColor env inp ct w) = Inr (Some h)"
  shows "h \<noteq> []"
proof -
  let ?run = "findDominantChromaColor env inp ct w"
  have run': "?run = (Inr (Some h), snd ?run)" using assms by (simp add: prod_eq_iff)
  obtain d where d: "fst (getVideoDuration env inp w) = Inr d"
    using getVideoDuration_Inr by blast
  from findDominantChromaColor_Inr[OF run' d]
  have "majority (hexVotes env (threeFrames env (uuids w))) = Some h" by simp
  then have "h \<in> set (hexVotes env (threeFrames env (uuids w)))" by (rule majority_mem)
  from hexVotes_mem[OF this] obtain c where "h = rgbToHex c" by blast
  then show ?thesis using rgbToHex_nonempty by simp
qed

text \<open>What \<^verbatim>\<open>detectColor\<close> hands on, in terms of what the detector returned.\<close>

lemma detectColor_result:
  assumes "detectColor env dto inp w = (Inr dc, w')"
  shows "dc = (if autoDetectColor dto = Some True
               then (case fst (findDominantChromaColor env inp (colorType dto) w) of
                       Inr (Some h) \<Rightarrow> Some h | _ \<Rightarrow> None)
               else None)"
proof (cases "autoDetectColor dto = Some True")
  case False
  then show ?thesis using assms by (simp add: detectColor_def)
next
  case True
  obtain r w1 where f: "findDominantChromaColor env inp (colorType dto) w = (r, w1)"
    by (cases "findDominantChromaColor env inp (colorType dto) w")
  from assms f True obtain found where r: "r = Inr found"
    by (cases r) (simp_all add: detectColor_def)
  have dc: "dc = (if truthy found then found else None)"
    using assms f True r by (simp add: detectColor_def)
  show ?thesis
  proof (cases found)
    case None
    then show ?thesis using dc True f r by (simp add: truthy_def)
  next
    case (Some h)
    then have "fst (findDominantChromaColor env inp (colorType dto) w) = Inr (Some h)"
      using f r by simp
    from detected_nonempty[OF this] have "h \<noteq> []" .
    then show ?thesis using dc True f r Some by (simp add: truthy_def)
  qed
qed

lemma mkdir_jobs: "ffmpegJobs (trace (snd (mkdir env p w))) = ffmpegJobs (trace w)"
  by (auto simp: mkdir_def Let_def log_event_def ffmpegJobs_append split: option.splits)

lemma processChromaKey_jobs_exact:
  assumes "processChromaKey env opts w = (Inr res, w')"
  shows "ffmpegJobs (trace w') = ffmpegJobs (trace w)
     @ [MaskArgs (o_inputPath opts) (getSettings (o_colorType opts) (o_maskSettings opts))
          (maskPath res),
        ResultArgs (o_inputPath opts) (getSettings (o_colorType opts) (o_resultSettings opts))
          (resultPath res)]"
proof -
  obtain sid w1 where s: "(case o_sessionId opts of Some s \<Rightarrow> (s, w) | None \<Rightarrow> uuidv4 env w) = (sid, w1)"
    by (cases "(case o_sessionId opts of Some s \<Rightarrow> (s, w) | None \<Rightarrow> uuidv4 env w)")
  have t1: "trace w1 = trace w"
    using s by (cases "o_sessionId opts") (auto simp: uuidv4_def)
  let ?mo = "path_join env (o_outputDir opts) (sid @ ''_mask.webm'')"
  let ?ro = "path_join env (o_outputDir opts) (sid @ ''_result.webm'')"
  let ?ma = "MaskArgs (o_inputPath opts) (getSettings (o_colorType opts) (o_maskSettings opts)) ?mo"
  let ?ra = "ResultArgs (o_inputPath opts) (getSettings (o_colorType opts) (o_resultSettings opts)) ?ro"
  obtain r2 w2 where m: "mkdir env (o_outputDir opts) w1 = (r2, w2)"
    by (cases "mkdir env (o_outputDir opts) w1")
  obtain r3 w3 where a3: "runFfmpegCommand env ?ma w2 = (r3, w3)"
    by (cases "runFfmpegCommand env ?ma w2")
  obtain r4 w4 where a4: "runFfmpegCommand env ?ra w3 = (r4, w4)"
    by (cases "runFfmpegCommand env ?ra w3")
  have pk: "processChromaKey env opts w =
      (case r2 of Inl e \<Rightarrow> (Inl e, w2)
       | Inr _ \<Rightarrow> (case r3 of Inl e \<Rightarrow> (Inl e, w3)
           | Inr _ \<Rightarrow> (case r4 of Inl e \<Rightarrow> (Inl e, w4)
               | Inr _ \<Rightarrow> (Inr \<lparr>maskPath = ?mo, resultPath = ?ro\<rparr>, w4))))"
    unfolding processChromaKey_def Let_def s prod.case m a3 a4
    by (simp split: sum.splits)
  from assms have res: "res = \<lparr>maskPath = ?mo, resultPath = ?ro\<rparr>" and w': "w' = w4"
    unfolding pk by (auto split: sum.splits)
  have t2: "ffmpegJobs (trace w2) = ffmpegJobs (trace w)"
    using mkdir_jobs[of env "o_outputDir opts" w1] m t1 by simp
  have t3: "trace w3 = trace w2 @ [SpawnFfmpeg ?ma]"
    using runFfmpegCommand_world[of env ?ma w2] a3 by simp
  have t4: "trace w4 = trace w3 @ [SpawnFfmpeg ?ra]"
    using runFfmpegCommand_world[of env ?ra w3] a4 by simp
  show ?thesis
    unfolding w' res by (simp add: t4 t3 t2 ffmpegJobs_append)
qed

text \<open>
  The \<^verbatim>\<open>try\<close> block on a request that succeeds: the last two \<^verbatim>\<open>ffmpeg\<close> runs are
  the mask pass and the result pass, with the settings resolved from the colour that
  \<^verbatim>\<open>detectColor\<close> handed on.
\<close>

lemma processVideo_try_jobs:
  assumes ri: "resolveInput env dto up sid w = (Inr inp, t1, w1)"
    and run: "processVideo_try env dto up baseUrl sid w = (Inr resp, t, w')"
  shows "\<exists>dc w2 pre mo ro. detectColor env dto inp w1 = (Inr dc, w2)
     \<and> ffmpegJobs (trace w') = pre
         @ [MaskArgs inp (maskChromaSettings dto dc) mo,
            ResultArgs inp (resultChromaSettings dto dc) ro]"
proof -
  obtain r2 w2 where dc: "detectColor env dto inp w1 = (r2, w2)"
    by (cases "detectColor env dto inp w1")
  from run ri dc obtain d where r2: "r2 = Inr d"
    by (cases r2) (simp_all add: processVideo_try_def)
  let ?o = "\<lparr>o_inputPath = inp, o_outputDir = outputDir env, o_colorType = colorType dto,
      o_resultSettings = Some (build_resultSettings dto d),
      o_maskSettings = Some (build_maskSettings dto d), o_sessionId = Some sid\<rparr>"
  obtain r3 w3 where pk: "processChromaKey env ?o w2 = (r3, w3)"
    by (cases "processChromaKey env ?o w2")
  from run ri dc r2 pk obtain res where r3: "r3 = Inr res" and w': "w' = w3"
    by (cases r3) (simp_all add: processVideo_try_def Let_def)
  from processChromaKey_jobs_exact[OF pk[unfolded r3]]
  have "ffmpegJobs (trace w3) = ffmpegJobs (trace w2)
     @ [MaskArgs inp (maskChromaSettings dto d) (maskPath res),
        ResultArgs inp (resultChromaSettings dto d) (resultPath res)]"
    by (simp add: maskChromaSettings_def resultChromaSettings_def)
  then show ?thesis using dc r2 w' by blast
qed

lemma processVideo_jobs:
  "ffmpegJobs (trace (snd (processVideo env dto up baseUrl w))) =
     ffmpegJobs (trace (snd (snd (processVideo_try env dto up baseUrl (uuid env (uuids w))
        (w\<lparr>uuids := Suc (uuids w)\<rparr>)))))"
proof -
  obtain r t w1 where tr: "processVideo_try env dto up baseUrl (uuid env (uuids w))
        (w\<lparr>uuids := Suc (uuids w)\<rparr>) = (r, t, w1)"
    by (cases "processVideo_try env dto up baseUrl (uuid env (uuids w)) (w\<lparr>uuids := Suc (uuids w)\<rparr>)")
  define w2 where "w2 = (if truthy t then snd (unlink env (the t) w1) else w1)"
  define w3 where "w3 = (case up of None \<Rightarrow> w2
      | Some u \<Rightarrow> (if file_path u \<noteq> [] then snd (unlink env (file_path u) w2) else w2))"
  have j2: "ffmpegJobs (trace w2) = ffmpegJobs (trace w1)"
    using unlink_world[of env "the t" w1] by (simp add: w2_def)
  have j3: "ffmpegJobs (trace w3) = ffmpegJobs (trace w2)"
    using unlink_world[of env _ w2] by (cases up) (simp_all add: w3_def)
  have "snd (processVideo env dto up baseUrl w) = w3"
    unfolding processVideo_def uuidv4_def Let_def prod.case tr w2_def w3_def snd_conv
    by (rule refl)
  then show ?thesis using j2 j3 tr by simp
qed


text \<open>
  C3. On every request that succeeds, the mask pass and the result pass (the last two
  \<^verbatim>\<open>ffmpeg\<close> runs) take the same colour, by this precedence. When detection was
  requested and \<^verbatim>\<open>findDominantChromaColor\<close> returned a colour, both use that colour,
  whatever \<^verbatim>\<open>color\<close> the request carries. Otherwise, when the request carries a
  (validated) colour, both use it in upper case. Otherwise both use the preset colour of
  the colour type.
\<close>

theorem color_precedence:
  assumes ri: "resolveInput env dto up (uuid env (uuids w)) (w\<lparr>uuids := Suc (uuids w)\<rparr>)
      = (Inr inp, t1, w1)"
    and run: "processVideo env dto up baseUrl w = (Inr resp, w')"
    and valid: "\<forall>c. dto_color dto = Some c \<longrightarrow> matchesHex6 c"
  shows "\<exists>pre ms mo rs ro.
      ffmpegJobs (trace w') = pre @ [MaskArgs inp ms mo, ResultArgs inp rs ro]
      \<and> color ms = color rs
      \<and> (\<forall>h. autoDetectColor dto = Some True
             \<and> fst (findDominantChromaColor env inp (colorType dto) w1) = Inr (Some h)
           \<longrightarrow> color ms = h)
      \<and> (\<forall>c. \<not> (autoDetectColor dto = Some True
                 \<and> (\<exists>h. fst (findDominantChromaColor env inp (colorType dto) w1)
                        = Inr (Some h)))
             \<and> dto_color dto = Some c
           \<longrightarrow> color ms = toUpperCase c)
      \<and> (\<not> (autoDetectColor dto = Some True
              \<and> (\<exists>h. fst (findDominantChromaColor env inp (colorType dto) w1) = Inr (Some h)))
          \<and> dto_color dto = None
           \<longrightarrow> color ms = color (preset (colorType dto)))"
proof -
  let ?sid = "uuid env (uuids w)"
  let ?w0 = "w\<lparr>uuids := Suc (uuids w)\<rparr>"
  let ?found = "fst (findDominantChromaColor env inp (colorType dto) w1)"
  obtain r t w3 where tr: "processVideo_try env dto up baseUrl ?sid ?w0 = (r, t, w3)"
    by (cases "processVideo_try env dto up baseUrl ?sid ?w0")
  have "r = Inr resp"
    using run processVideo_outcome[of env dto up baseUrl w] tr by simp
  then have tr': "processVideo_try env dto up baseUrl ?sid ?w0 = (Inr resp, t, w3)"
    using tr by simp
  have jobs: "ffmpegJobs (trace w') = ffmpegJobs (trace w3)"
    using processVideo_jobs[of env dto up baseUrl w] run tr by simp
  from processVideo_try_jobs[OF ri tr'] obtain dc w2 pre mo ro where
    dc: "detectColor env dto inp w1 = (Inr dc, w2)"
    and j: "ffmpegJobs (trace w3) = pre
         @ [MaskArgs inp (maskChromaSettings dto dc) mo,
            ResultArgs inp (resultChromaSettings dto dc) ro]"
    by blast
  note d = detectColor_result[OF dc]
  have same: "color (maskChromaSettings dto dc) = color (resultChromaSettings dto dc)"
    by (simp only: mask_color result_color)
  have det: "\<forall>h. autoDetectColor dto = Some True \<and> ?found = Inr (Some h)
      \<longrightarrow> color (maskChromaSettings dto dc) = h"
  proof (intro allI impI)
    fix h assume a: "autoDetectColor dto = Some True \<and> ?found = Inr (Some h)"
    then have "dc = Some h" using d by simp
    moreover have "h \<noteq> []" using a detected_nonempty by blast
    ultimately show "color (maskChromaSettings dto dc) = h"
      by (simp add: mask_color truthy_def)
  qed
  have none: "dc = None"
    if "\<not> (autoDetectColor dto = Some True \<and> (\<exists>h. ?found = Inr (Some h)))"
  proof (cases "autoDetectColor dto = Some True")
    case False
    then show ?thesis using d by simp
  next
    case True
    then have nh: "\<forall>h. ?found \<noteq> Inr (Some h)" using that by blast
    show ?thesis
    proof (cases ?found)
      case (Inl e)
      then show ?thesis using d True by simp
    next
      case (Inr f)
      then have "f = None" using nh by (cases f) simp_all
      then show ?thesis using d True Inr by simp
    qed
  qed
  have usr: "\<forall>c. \<not> (autoDetectColor dto = Some True \<and> (\<exists>h. ?found = Inr (Some h)))
             \<and> dto_color dto = Some c
           \<longrightarrow> color (maskChromaSettings dto dc) = toUpperCase c"
  proof (intro allI impI)
    fix c
    assume a: "\<not> (autoDetectColor dto = Some True \<and> (\<exists>h. ?found = Inr (Some h)))
             \<and> dto_color dto = Some c"
    then have n: "dc = None" using none by blast
    have "matchesHex6 c" using a valid by blast
    then have "truthy (Some c)" by (rule matchesHex6_truthy)
    then show "color (maskChromaSettings dto dc) = toUpperCase c"
      using a n by (simp add: mask_color truthy_def)
  qed
  have dflt: "\<not> (autoDetectColor dto = Some True \<and> (\<exists>h. ?found = Inr (Some h)))
          \<and> dto_color dto = None
           \<longrightarrow> color (maskChromaSettings dto dc) = color (preset (colorType dto))"
  proof
    assume a: "\<not> (autoDetectColor dto = Some True \<and> (\<exists>h. ?found = Inr (Some h)))
          \<and> dto_color dto = None"
    then have n: "dc = None" using none by blast
    show "color (maskChromaSettings dto dc) = color (preset (colorType dto))"
      using a n by (simp add: mask_color truthy_def)
  qed
  have j': "ffmpegJobs (trace w') = pre
         @ [MaskArgs inp (maskChromaSettings dto dc) mo,
            ResultArgs inp (resultChromaSettings dto dc) ro]"
    using jobs j by simp
  show ?thesis
    by (intro exI[of _ pre] exI[of _ "maskChromaSettings dto dc"] exI[of _ mo]
        exI[of _ "resultChromaSettings dto dc"] exI[of _ ro] conjI j' same det usr dflt)
qed


theorem color_precedence_witness:
  "fst (findDominantChromaColor sample_env ''/uploads/in.mp4'' green
         (sample_world\<lparr>uuids := Suc (uuids sample_world)\<rparr>)) = Inr (Some ''00F800'')
   \<and> (\<exists>pre ms mo rs ro.
         ffmpegJobs (trace (snd (processVideo sample_env
             (sample_dto\<lparr>dto_color := Some ''12abcd''\<rparr>) (Some sample_upload) None sample_world)))
           = pre @ [MaskArgs ''/uploads/in.mp4'' ms mo, ResultArgs ''/uploads/in.mp4'' rs ro]
         \<and> color ms = ''00F800'' \<and> color rs = ''00F800'')
   \<and> (\<exists>pre ms mo rs ro.
         ffmpegJobs (trace (snd (processVideo sample_env
             (sample_dto\<lparr>autoDetectColor := None, dto_color := Some ''12abcd''\<rparr>)
             (Some sample_upload) None sample_world)))
           = pre @ [MaskArgs ''/uploads/in.mp4'' ms mo, ResultArgs ''/uploads/in.mp4'' rs ro]
         \<and> color ms = ''12ABCD'' \<and> color rs = ''12ABCD'')"
proof -
  let ?d1 = "sample_dto\<lparr>dto_color := Some ''12abcd''\<rparr>"
  let ?d2 = "sample_dto\<lparr>autoDetectColor := None, dto_color := Some ''12abcd''\<rparr>"
  let ?w1 = "sample_world\<lparr>uuids := Suc (uuids sample_world)\<rparr>"
  let ?p1 = "processVideo sample_env ?d1 (Some sample_upload) None sample_world"
  let ?p2 = "processVideo sample_env ?d2 (Some sample_upload) None sample_world"
  have hex: "matchesHex6 ''12abcd''" by (simp add: matchesHex6_def isHexChar_def)
  have up: "toUpperCase ''12abcd'' = ''12ABCD''" by code_simp
  have f: "fst (findDominantChromaColor sample_env ''/uploads/in.mp4'' green ?w1)
      = Inr (Some ''00F800'')" by code_simp
  have ri1: "resolveInput sample_env ?d1 (Some sample_upload)
        (uuid sample_env (uuids sample_world)) ?w1 = (Inr ''/uploads/in.mp4'', None, ?w1)"
    by (simp add: resolveInput_def sample_upload_def)
  have ri2: "resolveInput sample_env ?d2 (Some sample_upload)
        (uuid sample_env (uuids sample_world)) ?w1 = (Inr ''/uploads/in.mp4'', None, ?w1)"
    by (simp add: resolveInput_def sample_upload_def)
  have "(case fst ?p1 of Inl e \<Rightarrow> False | Inr x \<Rightarrow> True)" by code_simp
  then obtain resp1 where "fst ?p1 = Inr resp1" by (cases "fst ?p1") simp_all
  then have run1: "?p1 = (Inr resp1, snd ?p1)" by (simp add: prod_eq_iff)
  have "(case fst ?p2 of Inl e \<Rightarrow> False | Inr x \<Rightarrow> True)" by code_simp
  then obtain resp2 where "fst ?p2 = Inr resp2" by (cases "fst ?p2") simp_all
  then have run2: "?p2 = (Inr resp2, snd ?p2)" by (simp add: prod_eq_iff)
  have v1: "\<forall>c. dto_color ?d1 = Some c \<longrightarrow> matchesHex6 c" using hex by simp
  have v2: "\<forall>c. dto_color ?d2 = Some c \<longrightarrow> matchesHex6 c" using hex by simp
  have a1: "autoDetectColor ?d1 = Some True" and c1: "colorType ?d1 = green"
    by (simp_all add: sample_dto_def)
  have a2: "autoDetectColor ?d2 = None" and c2: "dto_color ?d2 = Some ''12abcd''"
    by simp_all
  from color_precedence[OF ri1 run1 v1] obtain pre ms mo rs ro where
    j1: "ffmpegJobs (trace (snd ?p1))
        = pre @ [MaskArgs ''/uploads/in.mp4'' ms mo, ResultArgs ''/uploads/in.mp4'' rs ro]"
    and s1: "color ms = color rs"
    and h1: "\<forall>h. autoDetectColor ?d1 = Some True
             \<and> fst (findDominantChromaColor sample_env ''/uploads/in.mp4'' (colorType ?d1) ?w1)
                 = Inr (Some h) \<longrightarrow> color ms = h"
    by blast
  have "color ms = ''00F800''" using h1 a1 f unfolding c1 by blast
  then have e1: "\<exists>pre ms mo rs ro. ffmpegJobs (trace (snd ?p1))
        = pre @ [MaskArgs ''/uploads/in.mp4'' ms mo, ResultArgs ''/uploads/in.mp4'' rs ro]
        \<and> color ms = ''00F800'' \<and> color rs = ''00F800''"
    using j1 s1 by metis
  from color_precedence[OF ri2 run2 v2] obtain pre' ms' mo' rs' ro' where
    j2: "ffmpegJobs (trace (snd ?p2))
        = pre' @ [MaskArgs ''/uploads/in.mp4'' ms' mo', ResultArgs ''/uploads/in.mp4'' rs' ro']"
    and s2: "color ms' = color rs'"
    and h2: "\<forall>c. \<not> (autoDetectColor ?d2 = Some True
                 \<and> (\<exists>h. fst (findDominantChromaColor sample_env ''/uploads/in.mp4''
                          (colorType ?d2) ?w1) = Inr (Some h)))
             \<and> dto_color ?d2 = Some c \<longrightarrow> color ms' = toUpperCase c"
    by blast
  have "color ms' = toUpperCase ''12abcd''" using h2 a2 c2 by simp
  then have "color ms' = ''12ABCD''" using up by simp
  then have e2: "\<exists>pre ms mo rs ro. ffmpegJobs (trace (snd ?p2))
        = pre @ [MaskArgs ''/uploads/in.mp4'' ms mo, ResultArgs ''/uploads/in.mp4'' rs ro]
        \<and> color ms = ''12ABCD'' \<and> color rs = ''12ABCD''"
    using j2 s2 by metis
  show ?thesis using f e1 e2 by (intro conjI)
qed

end
